theory Spec2Isabelle
  imports Complex_Main "HOL-Library.Multiset"
begin

section \<open>JavaScript numbers\<close>

text \<open>
  The source compares distances with \<open><\<close>, \<open><=\<close> and \<open>>\<close>, starts its running minima
  at \<open>Infinity\<close>, and divides by a distance that may be zero.  A number is therefore a
  finite value, one of the two infinities, or \<open>NaN\<close>.  Finite values are idealised as
  reals: rounding, underflow and the sign of zero are not modelled.
\<close>

datatype jsnum = NaN | NegInf | Fin real | PosInf

fun js_lt :: "jsnum \<Rightarrow> jsnum \<Rightarrow> bool" where
  "js_lt (Fin a) (Fin b) = (a < b)"
| "js_lt (Fin a) PosInf = True"
| "js_lt NegInf (Fin b) = True"
| "js_lt NegInf PosInf = True"
| "js_lt _ _ = False"

definition js_le :: "jsnum \<Rightarrow> jsnum \<Rightarrow> bool" where
  "js_le a b = (js_lt a b \<or> (a = b \<and> a \<noteq> NaN))"

definition js_gt :: "jsnum \<Rightarrow> jsnum \<Rightarrow> bool" where
  "js_gt a b = js_lt b a"

fun js_neg :: "jsnum \<Rightarrow> jsnum" where
  "js_neg NaN = NaN"
| "js_neg NegInf = PosInf"
| "js_neg PosInf = NegInf"
| "js_neg (Fin a) = Fin (- a)"

fun js_add :: "jsnum \<Rightarrow> jsnum \<Rightarrow> jsnum" where
  "js_add (Fin a) (Fin b) = Fin (a + b)"
| "js_add NaN _ = NaN"
| "js_add _ NaN = NaN"
| "js_add PosInf NegInf = NaN"
| "js_add NegInf PosInf = NaN"
| "js_add PosInf _ = PosInf"
| "js_add NegInf _ = NegInf"
| "js_add (Fin a) b = b"

definition js_sub :: "jsnum \<Rightarrow> jsnum \<Rightarrow> jsnum" where
  "js_sub a b = js_add a (js_neg b)"

text \<open>The sign of an infinite product or quotient; a finite zero counts as positive.\<close>

fun js_negative :: "jsnum \<Rightarrow> bool" where
  "js_negative NegInf = True"
| "js_negative (Fin a) = (a < 0)"
| "js_negative _ = False"

definition js_signed_inf :: "bool \<Rightarrow> jsnum" where
  "js_signed_inf negative = (if negative then NegInf else PosInf)"

fun js_mul :: "jsnum \<Rightarrow> jsnum \<Rightarrow> jsnum" where
  "js_mul (Fin a) (Fin b) = Fin (a * b)"
| "js_mul NaN _ = NaN"
| "js_mul _ NaN = NaN"
| "js_mul (Fin a) b = (if a = 0 then NaN else js_signed_inf (js_negative (Fin a) \<noteq> js_negative b))"
| "js_mul a (Fin b) = (if b = 0 then NaN else js_signed_inf (js_negative a \<noteq> js_negative (Fin b)))"
| "js_mul a b = js_signed_inf (js_negative a \<noteq> js_negative b)"

fun js_div :: "jsnum \<Rightarrow> jsnum \<Rightarrow> jsnum" where
  "js_div (Fin a) (Fin b) =
     (if b = 0 then (if a = 0 then NaN else js_signed_inf (a < 0)) else Fin (a / b))"
| "js_div NaN _ = NaN"
| "js_div _ NaN = NaN"
| "js_div (Fin a) b = Fin 0"
| "js_div a (Fin b) = js_signed_inf (js_negative a \<noteq> js_negative (Fin b))"
| "js_div a b = NaN"

fun js_sqrt :: "jsnum \<Rightarrow> jsnum" where
  "js_sqrt (Fin a) = (if a < 0 then NaN else Fin (sqrt a))"
| "js_sqrt PosInf = PosInf"
| "js_sqrt _ = NaN"


section \<open>Values, layers and the host map\<close>

text \<open>
  \<open>LatLng\<close> objects carry two numbers.  The elements that an array handed to
  \<open>closest\<close> can hold are modelled as far as the source inspects them: \<open>instanceof Array\<close>,
  \<open>instanceof LatLng\<close>, \<open>typeof v[0]\<close> and \<open>typeof v.lat\<close>.  \<open>Obj la lo\<close> is a plain object
  whose \<open>lat\<close> and \<open>lng\<close> properties are the given numbers (\<open>None\<close>: absent or \<open>null\<close>);
  it is what a \<open>LatLng\<close> becomes after \<open>JSON.parse(JSON.stringify(...))\<close>.
\<close>

record latlng =
  lat :: jsnum
  lng :: jsnum

record point =
  px :: jsnum
  py :: jsnum

datatype jsval =
    Undefined
  | Null
  | Num jsnum
  | Str string
  | Obj "jsnum option" "jsnum option"
  | LatLngObj latlng
  | Arr "jsval list"

datatype error =
    TypeError   \<comment> \<open>raised by the JavaScript runtime: a property read on \<open>null\<close> or \<open>undefined\<close>,
                     or a call of something that is not a function\<close>
  | HostError   \<comment> \<open>thrown by the host library, e.g. its \<open>LatLng\<close> constructor\<close>

text \<open>
  Layers are objects with identity: \<open>stamp\<close> is the number \<open>Util.stamp\<close> gives the object.
  \<open>Marker\<close> stands for every layer with a \<open>getLatLng\<close> method that is not a \<open>Circle\<close>;
  \<open>OtherLayer\<close> for a layer with neither \<open>getLatLng\<close> nor \<open>getLatLngs\<close>.  A \<open>Polygon\<close> is
  an instance of \<open>Polyline\<close>.  A group holds its children in the order in which the host
  iterates them (\<open>eachLayer\<close>, \<open>getLayers\<close>); the datatype makes every group a finite tree.
\<close>

datatype radius = RadNum jsnum | RadObj jsnum

datatype layer =
    LayerGroup nat "layer list"
  | Circle nat latlng radius
  | Marker nat latlng
  | Polyline nat "jsval list"
  | Polygon nat "jsval list"
  | OtherLayer nat

fun stamp :: "layer \<Rightarrow> nat" where
  "stamp (LayerGroup i _) = i"
| "stamp (Circle i _ _) = i"
| "stamp (Marker i _) = i"
| "stamp (Polyline i _) = i"
| "stamp (Polygon i _) = i"
| "stamp (OtherLayer i) = i"

text \<open>
  The host map and the parts of Leaflet that the source calls are a parameter: the
  projections, \<open>LineUtil\<close>, the \<open>LatLng\<close> constructor (with one argument and with two; it
  may throw) and the option \<open>almostDistance\<close>.  \<open>hasIsArray\<close> says whether the host
  defines \<open>Util.isArray\<close>: Leaflet 1 does, as \<open>Array.isArray\<close>; Leaflet 2 does not, and
  calling it there is a \<open>TypeError\<close>.
\<close>

record host =
  latLngToLayerPoint :: "latlng \<Rightarrow> point"
  project :: "latlng \<Rightarrow> jsnum \<Rightarrow> point"
  unproject :: "point \<Rightarrow> jsnum \<Rightarrow> latlng"
  getMaxZoom :: jsnum
  getZoom :: jsnum
  pointToSegmentDistance :: "point \<Rightarrow> point \<Rightarrow> point \<Rightarrow> jsnum"
  closestPointOnSegment :: "point \<Rightarrow> point \<Rightarrow> point \<Rightarrow> point"
  newLatLng :: "jsval \<Rightarrow> error + latlng"
  newLatLng2 :: "jsnum \<Rightarrow> jsnum \<Rightarrow> error + latlng"
  almostDistance :: jsnum
  hasIsArray :: bool

text \<open>
  The geometry functions are plain functions of a strict-mode module, yet three of them
  call \<open>this.distance(map, a, b)\<close>.  The receiver is made an explicit argument: \<open>None\<close> is
  \<open>undefined\<close>, which is what every call written in the source passes, since all of them
  are plain calls; \<open>Some d\<close> is an object whose \<open>distance\<close> method is \<open>d\<close>.
\<close>

type_synonym receiver = "(host \<Rightarrow> latlng \<Rightarrow> latlng \<Rightarrow> jsnum) option"

definition this_distance :: "receiver \<Rightarrow> host \<Rightarrow> latlng \<Rightarrow> latlng \<Rightarrow> error + jsnum" where
  "this_distance this h a b = (case this of None \<Rightarrow> Inl TypeError | Some d \<Rightarrow> Inr (d h a b))"

subsection \<open>Property reads\<close>

definition index0 :: "jsval list \<Rightarrow> jsval" where
  \<comment> \<open>\<open>xs[0]\<close> on an array\<close>
  "index0 xs = (case xs of [] \<Rightarrow> Undefined | x # _ \<Rightarrow> x)"

fun prop0 :: "jsval \<Rightarrow> error + jsval" where
  \<comment> \<open>\<open>v[0]\<close> on any value\<close>
  "prop0 Undefined = Inl TypeError"
| "prop0 Null = Inl TypeError"
| "prop0 (Arr ys) = Inr (index0 ys)"
| "prop0 (Str s) = Inr (case s of [] \<Rightarrow> Undefined | c # _ \<Rightarrow> Str [c])"
| "prop0 _ = Inr Undefined"

fun prop_lat :: "jsval \<Rightarrow> error + jsval" where
  \<comment> \<open>\<open>v.lat\<close> on any value\<close>
  "prop_lat Undefined = Inl TypeError"
| "prop_lat Null = Inl TypeError"
| "prop_lat (Obj (Some a) _) = Inr (Num a)"
| "prop_lat (LatLngObj ll) = Inr (Num (lat ll))"
| "prop_lat _ = Inr Undefined"

fun typeof :: "jsval \<Rightarrow> string" where
  "typeof Undefined = ''undefined''"
| "typeof (Num _) = ''number''"
| "typeof (Str _) = ''string''"
| "typeof _ = ''object''"

fun isArray :: "jsval \<Rightarrow> bool" where
  \<comment> \<open>\<open>v instanceof Array\<close>, and \<open>Array.isArray(v)\<close>\<close>
  "isArray (Arr _) = True"
| "isArray _ = False"

fun isLatLng :: "jsval \<Rightarrow> bool" where
  "isLatLng (LatLngObj _) = True"
| "isLatLng _ = False"

section \<open>Geometry utilities\<close>

text \<open>
  \<open>isFlat\<close> begins with the call \<open>leaflet.Util.isArray(latlngs[0])\<close>, a \<open>TypeError\<close> on a
  host without that function.  \<open>flat\<close> is the value it returns on a host that has it.
\<close>

definition isFlat :: "host \<Rightarrow> jsval list \<Rightarrow> error + bool" where
  "isFlat h latlngs =
     (if \<not> hasIsArray h then Inl TypeError
      else Inr (\<not> isArray (index0 latlngs) \<or>
                (case prop0 (index0 latlngs) of
                   Inl _ \<Rightarrow> False
                 | Inr v \<Rightarrow> typeof v \<noteq> ''object'' \<and> typeof v \<noteq> ''undefined'')))"

definition flat :: "jsval list \<Rightarrow> bool" where
  "flat latlngs =
     (\<not> isArray (index0 latlngs) \<or>
      (case prop0 (index0 latlngs) of
         Inl _ \<Rightarrow> False
       | Inr v \<Rightarrow> typeof v \<noteq> ''object'' \<and> typeof v \<noteq> ''undefined''))"

definition distanceSegment :: "host \<Rightarrow> latlng \<Rightarrow> latlng \<Rightarrow> latlng \<Rightarrow> jsnum" where
  "distanceSegment h latlng latlngA latlngB =
     (let p = latLngToLayerPoint h latlng;
          p1 = latLngToLayerPoint h latlngA;
          p2 = latLngToLayerPoint h latlngB
      in pointToSegmentDistance h p p1 p2)"

definition closestOnSegment :: "host \<Rightarrow> latlng \<Rightarrow> latlng \<Rightarrow> latlng \<Rightarrow> latlng" where
  "closestOnSegment h latlng latlngA latlngB =
     (let maxzoom = (if getMaxZoom h = PosInf then getZoom h else getMaxZoom h);
          p = project h latlng maxzoom;
          p1 = project h latlngA maxzoom;
          p2 = project h latlngB maxzoom;
          closest = closestPointOnSegment h p p1 p2
      in unproject h closest maxzoom)"

definition closestOnCircle :: "host \<Rightarrow> latlng \<Rightarrow> radius \<Rightarrow> latlng \<Rightarrow> error + latlng" where
  "closestOnCircle h center circleRadius latLng =
     (let radius = (case circleRadius of RadNum r \<Rightarrow> r | RadObj r \<Rightarrow> r);
          x = lng latLng;
          y = lat latLng;
          cx = lng center;
          cy = lat center;
          dx = js_sub x cx;
          dy = js_sub y cy;
          distance = js_sqrt (js_add (js_mul dx dx) (js_mul dy dy));
          tx = js_add cx (js_mul (js_div dx distance) radius);
          ty = js_add cy (js_mul (js_div dy distance) radius)
      in newLatLng2 h ty tx)"


subsection \<open>Copying the coordinates and closing a polygon\<close>

text \<open>
  \<open>JSON.parse(JSON.stringify(v))\<close>: arrays are copied element by element, \<open>undefined\<close> and
  non-finite numbers become \<open>null\<close>, a \<open>LatLng\<close> becomes a plain object.
\<close>

fun finite_json :: "jsnum \<Rightarrow> jsnum option" where
  "finite_json (Fin a) = Some (Fin a)"
| "finite_json _ = None"

fun json_copy :: "jsval \<Rightarrow> jsval" where
  "json_copy Undefined = Null"
| "json_copy Null = Null"
| "json_copy (Num n) = (case finite_json n of None \<Rightarrow> Null | Some m \<Rightarrow> Num m)"
| "json_copy (Str s) = Str s"
| "json_copy (Obj la lo) = Obj (Option.bind la finite_json) (Option.bind lo finite_json)"
| "json_copy (LatLngObj ll) = Obj (finite_json (lat ll)) (finite_json (lng ll))"
| "json_copy (Arr xs) = Arr (map json_copy xs)"

text \<open>A loop that stops at the first exception: the results so far, or the first error.\<close>

fun sequence_results :: "('e + 'a) list \<Rightarrow> 'e + 'a list" where
  "sequence_results [] = Inr []"
| "sequence_results (Inl e # _) = Inl e"
| "sequence_results (Inr a # rest) =
     (case sequence_results rest of Inl e \<Rightarrow> Inl e | Inr as \<Rightarrow> Inr (a # as))"

text \<open>
  \<open>addLastSegment\<close> pushes the first element onto every flat array of the copy.  Called
  on something that is not an array it ends in a \<open>TypeError\<close> (\<open>isFlat\<close> reads \<open>[0]\<close> of
  \<open>null\<close>, or \<open>push\<close> is not a function).  The model returns the updated copy.
\<close>

fun addLastSegment :: "host \<Rightarrow> jsval list \<Rightarrow> error + jsval list" where
  "addLastSegment h latlngsArr =
     (case isFlat h latlngsArr of
        Inl e \<Rightarrow> Inl e
      | Inr True \<Rightarrow> Inr (latlngsArr @ [index0 latlngsArr])
      | Inr False \<Rightarrow>
          sequence_results
            (map (\<lambda>v. case v of
                         Arr sub \<Rightarrow> map_sum id Arr (addLastSegment h sub)
                       | _ \<Rightarrow> Inl TypeError)
                 latlngsArr))"

declare addLastSegment.simps [simp del]


subsection \<open>Closest point on a layer\<close>

text \<open>
  The value \<open>closest\<close> returns is a \<open>LatLng\<close> with an added \<open>distance\<close> property, or
  \<open>null\<close>.
\<close>

record closest_result =
  cr_latlng :: latlng
  cr_distance :: jsnum

text \<open>The loop over the vertices of a flat list (\<open>vertices\<close> set): strict \<open><\<close>.\<close>

fun vertexLoop ::
  "receiver \<Rightarrow> host \<Rightarrow> latlng \<Rightarrow> jsval list \<Rightarrow> jsnum \<Rightarrow> closest_result option
     \<Rightarrow> error + closest_result option" where
  "vertexLoop this h latlng [] mindist result = Inr result"
| "vertexLoop this h latlng (v # rest) mindist result =
     (case newLatLng h v of
        Inl e \<Rightarrow> Inl e
      | Inr ll \<Rightarrow>
          (case this_distance this h latlng ll of
             Inl e \<Rightarrow> Inl e
           | Inr distance \<Rightarrow>
               if js_lt distance mindist
               then vertexLoop this h latlng rest distance
                      (Some \<lparr>cr_latlng = ll, cr_distance = distance\<rparr>)
               else vertexLoop this h latlng rest mindist result))"

text \<open>The loop over the segments of a flat list, \<open>i < n - 1\<close>: non-strict \<open><=\<close>.\<close>

fun segmentLoop ::
  "host \<Rightarrow> latlng \<Rightarrow> jsval list \<Rightarrow> jsnum \<Rightarrow> closest_result option
     \<Rightarrow> error + closest_result option" where
  "segmentLoop h latlng (a # b # rest) mindist result =
     (case newLatLng h a of
        Inl e \<Rightarrow> Inl e
      | Inr latlngA \<Rightarrow>
          (case newLatLng h b of
             Inl e \<Rightarrow> Inl e
           | Inr latlngB \<Rightarrow>
               (let distance = distanceSegment h latlng latlngA latlngB in
                if js_le distance mindist
                then segmentLoop h latlng (b # rest) distance
                       (Some \<lparr>cr_latlng = closestOnSegment h latlng latlngA latlngB,
                              cr_distance = distance\<rparr>)
                else segmentLoop h latlng (b # rest) mindist result)))"
| "segmentLoop h latlng _ mindist result = Inr result"

text \<open>
  The two tests on the first element of an array argument:
  \<open>layer[0] instanceof Array && typeof layer[0][0] !== 'number'\<close>, and
  \<open>layer[0] instanceof LatLng || typeof layer[0][0] === 'number' ||
  typeof layer[0].lat === 'number'\<close>, which reads a property of \<open>layer[0]\<close> and so
  raises a \<open>TypeError\<close> when that is \<open>undefined\<close> or \<open>null\<close>.
\<close>

definition isNestedArray :: "jsval list \<Rightarrow> bool" where
  "isNestedArray layer =
     (case index0 layer of
        Arr ys \<Rightarrow> typeof (index0 ys) \<noteq> ''number''
      | _ \<Rightarrow> False)"

definition isCoordinateArray :: "jsval list \<Rightarrow> error + bool" where
  "isCoordinateArray layer =
     (if isLatLng (index0 layer) then Inr True
      else case prop0 (index0 layer) of
             Inl e \<Rightarrow> Inl e
           | Inr v \<Rightarrow>
               if typeof v = ''number'' then Inr True
               else (case prop_lat (index0 layer) of
                       Inl e \<Rightarrow> Inl e
                     | Inr l \<Rightarrow> Inr (typeof l = ''number'')))"

text \<open>
  \<open>new leaflet.Polyline(layer).getLatLngs()\<close> for an array that passed the second test.
  Such an array is flat for Leaflet too, and Leaflet's constructor then converts each
  element with the \<open>LatLng\<close> constructor.
\<close>

definition newPolyline :: "host \<Rightarrow> jsval list \<Rightarrow> error + jsval list" where
  "newPolyline h layer = map_sum id (map LatLngObj) (sequence_results (map (newLatLng h) layer))"

text \<open>
  The copy that \<open>closest\<close> works on: \<open>JSON.parse(JSON.stringify(layer.getLatLngs().slice(0)))\<close>,
  closed by \<open>addLastSegment\<close> when the layer is a \<open>Polygon\<close>.
\<close>

definition copyLatLngs :: "host \<Rightarrow> bool \<Rightarrow> jsval list \<Rightarrow> error + jsval list" where
  "copyLatLngs h isPolygon lls =
     (let latlngs = map json_copy lls
      in if isPolygon then addLastSegment h latlngs else Inr latlngs)"

text \<open>The nesting depth of a value; it bounds the recursion of \<open>closest\<close>.\<close>

fun depth :: "jsval \<Rightarrow> nat" where
  "depth (Arr xs) = Suc (Max (insert 0 (depth ` set xs)))"
| "depth _ = 0"

text \<open>The \<open>layer\<close> argument of \<open>closest\<close>: an array or any other value, or a layer object.\<close>

datatype closest_arg = Value jsval | Layer layer

fun closest_measure :: "closest_arg \<Rightarrow> nat" where
  "closest_measure (Value v) = 2 * depth v + 1"
| "closest_measure (Layer (Polyline _ lls)) = 2 * depth (Arr lls) + 1"
| "closest_measure (Layer (Polygon _ lls)) = 2 * depth (Arr lls) + 1"
| "closest_measure (Layer _) = 0"


text \<open>Facts about \<open>depth\<close> for the termination proof.\<close>

lemma depth_elem: "v \<in> set xs \<Longrightarrow> depth v < depth (Arr xs)"
  by (simp add: less_Suc_eq_le)

lemma depth_json_copy: "depth (json_copy v) = depth v"
proof (induction v)
  case (Arr xs)
  have "depth ` json_copy ` set xs = depth ` set xs"
    using Arr.IH by (auto simp: image_iff)
  then show ?case by simp
qed (simp_all split: option.splits)

lemma sequence_results_Inr:
  "sequence_results rs = Inr ys \<Longrightarrow> rs = map Inr ys"
proof (induction rs arbitrary: ys)
  case Nil then show ?case by simp
next
  case (Cons r rs)
  then show ?case by (cases r) (auto split: sum.splits)
qed

lemma depth_index0: "depth (index0 xs) \<le> Max (insert 0 (depth ` set xs))"
  by (cases xs) (simp_all add: index0_def)

lemma isFlat_flat: "isFlat h xs = (if hasIsArray h then Inr (flat xs) else Inl TypeError)"
  by (simp add: isFlat_def flat_def)

lemma addLastSegment_flat: "isFlat h xs = Inr True \<Longrightarrow> addLastSegment h xs = Inr (xs @ [index0 xs])"
  by (subst addLastSegment.simps) simp

lemma addLastSegment_nested:
  "isFlat h xs = Inr False \<Longrightarrow>
   addLastSegment h xs =
     sequence_results
       (map (\<lambda>v. case v of Arr sub \<Rightarrow> map_sum id Arr (addLastSegment h sub) | _ \<Rightarrow> Inl TypeError) xs)"
  by (subst addLastSegment.simps) simp

lemma addLastSegment_raises: "isFlat h xs = Inl e \<Longrightarrow> addLastSegment h xs = Inl e"
  by (subst addLastSegment.simps) simp

lemma depth_addLastSegment:
  "addLastSegment h xs = Inr ys \<Longrightarrow> depth (Arr ys) = depth (Arr xs)"
proof (induction h xs arbitrary: ys rule: addLastSegment.induct)
  case (1 h latlngsArr)
  from "1.prems" obtain b where b: "isFlat h latlngsArr = Inr b"
    by (cases "isFlat h latlngsArr") (simp_all add: addLastSegment_raises)
  show ?case
  proof (cases b)
    case True
    with "1.prems" b have ys: "ys = latlngsArr @ [index0 latlngsArr]"
      by (simp add: addLastSegment_flat)
    have "Max (insert (depth (index0 latlngsArr)) (insert 0 (depth ` set latlngsArr)))
            = Max (insert 0 (depth ` set latlngsArr))"
      using depth_index0 [of latlngsArr]
      by (metis List.finite_set Max_insert finite_imageI finite_insert insert_not_empty max.absorb2)
    then show ?thesis by (simp add: ys insert_commute)
  next
    case False
    let ?f = "\<lambda>v. case v of Arr sub \<Rightarrow> map_sum id Arr (addLastSegment h sub) | _ \<Rightarrow> Inl TypeError"
    from False b "1.prems" have "sequence_results (map ?f latlngsArr) = Inr ys"
      by (simp add: addLastSegment_nested)
    then have m: "map ?f latlngsArr = map Inr ys" by (rule sequence_results_Inr)
    then have len: "length ys = length latlngsArr" by (metis length_map)
    have each: "depth (ys ! i) = depth (latlngsArr ! i)" if "i < length latlngsArr" for i
    proof -
      from m that len have fi: "?f (latlngsArr ! i) = Inr (ys ! i)"
        by (metis nth_map)
      then obtain sub where sub: "latlngsArr ! i = Arr sub"
        by (cases "latlngsArr ! i") auto
      with fi obtain sub' where s': "addLastSegment h sub = Inr sub'" "ys ! i = Arr sub'"
        by (cases "addLastSegment h sub") auto
      have "latlngsArr ! i \<in> set latlngsArr" using that by simp
      moreover from False have "b = False" by simp
      ultimately show ?thesis using "1.IH" [OF b _ _ sub s'(1)] sub s'(2) by simp
    qed
    have "map depth ys = map depth latlngsArr"
      using len each by (auto intro: nth_equalityI)
    then have "depth ` set ys = depth ` set latlngsArr"
      by (metis list.set_map)
    then show ?thesis by simp
  qed
qed

lemma length_addLastSegment:
  "addLastSegment h xs = Inr ys \<Longrightarrow> length ys \<le> Suc (length xs)"
proof -
  assume a: "addLastSegment h xs = Inr ys"
  then obtain b where b: "isFlat h xs = Inr b"
    by (cases "isFlat h xs") (simp_all add: addLastSegment_raises)
  show ?thesis
  proof (cases b)
    case True
    with a b show ?thesis by (auto simp: addLastSegment_flat)
  next
    case False
    with a b have "sequence_results
        (map (\<lambda>v. case v of Arr sub \<Rightarrow> map_sum id Arr (addLastSegment h sub)
                  | _ \<Rightarrow> Inl TypeError) xs) = Inr ys"
      by (simp add: addLastSegment_nested)
    from sequence_results_Inr [OF this] have "length xs = length ys"
      by (metis length_map)
    then show ?thesis by simp
  qed
qed

lemma depth_tail: "depth (Arr rest) \<le> depth (Arr (sub # rest))"
  by (simp add: Max_insert2 max.coboundedI2 insert_commute)

lemma depth_newPolyline: "newPolyline h layer = Inr lls \<Longrightarrow> depth (Arr lls) \<le> Suc 0"
  by (cases "sequence_results (map (newLatLng h) layer)")
     (auto simp: newPolyline_def image_image image_constant_conv)

lemma depth_Arr_pos: "0 < depth (Arr xs)"
  by simp

lemma depth_json_list: "depth (Arr (map json_copy lls)) = depth (Arr lls)"
  using depth_json_copy [of "Arr lls"] by simp

text \<open>
  \<open>closest\<close> proper.  The first equation is the \<open>layer instanceof Array\<close> part; the second
  the test \<open>layer instanceof leaflet.Polyline\<close>; \<open>closestLatLngs\<close> is the rest of the
  body, from the copy of \<open>layer.getLatLngs()\<close> on, which an array that was turned into a
  \<open>Polyline\<close> reaches as well.  \<open>closest_elements\<close> is the loop over the elements of an
  array argument, which tests \<open>subResult && subResult.distance < mindist\<close>;
  \<open>closest_sublists\<close> is the loop over the sub-lists of a polyline, which reads
  \<open>subResult.distance\<close> unguarded, a \<open>TypeError\<close> on \<open>null\<close>.  Every recursive call in the
  source is a plain call, so its receiver is \<open>undefined\<close>.
\<close>

function closest ::
  "receiver \<Rightarrow> host \<Rightarrow> closest_arg \<Rightarrow> latlng \<Rightarrow> bool \<Rightarrow> error + closest_result option"
  and closestLatLngs ::
  "receiver \<Rightarrow> host \<Rightarrow> bool \<Rightarrow> jsval list \<Rightarrow> latlng \<Rightarrow> bool \<Rightarrow> error + closest_result option"
  and closest_elements ::
  "host \<Rightarrow> latlng \<Rightarrow> bool \<Rightarrow> jsval list \<Rightarrow> jsnum \<Rightarrow> closest_result option
     \<Rightarrow> error + closest_result option"
  and closest_sublists ::
  "host \<Rightarrow> latlng \<Rightarrow> bool \<Rightarrow> jsval list \<Rightarrow> jsnum \<Rightarrow> closest_result option
     \<Rightarrow> error + closest_result option"
where
  "closest this h (Value v) latlng vertices =
     (case v of
        Arr layer \<Rightarrow>
          if isNestedArray layer then closest_elements h latlng vertices layer PosInf None
          else
            (case isCoordinateArray layer of
               Inl e \<Rightarrow> Inl e
             | Inr False \<Rightarrow> Inr None
             | Inr True \<Rightarrow>
                 (case newPolyline h layer of
                    Inl e \<Rightarrow> Inl e
                  | Inr lls \<Rightarrow> closestLatLngs this h False lls latlng vertices))
      | _ \<Rightarrow> Inr None)"
| "closest this h (Layer l) latlng vertices =
     (case l of
        Polyline _ lls \<Rightarrow> closestLatLngs this h False lls latlng vertices
      | Polygon _ lls \<Rightarrow> closestLatLngs this h True lls latlng vertices
      | _ \<Rightarrow> Inr None)"
| "closestLatLngs this h isPolygon lls latlng vertices =
     (case copyLatLngs h isPolygon lls of
        Inl e \<Rightarrow> Inl e
      | Inr latlngs \<Rightarrow>
          (case isFlat h latlngs of
             Inl e \<Rightarrow> Inl e
           | Inr False \<Rightarrow> closest_sublists h latlng vertices latlngs PosInf None
           | Inr True \<Rightarrow>
               if vertices then vertexLoop this h latlng latlngs PosInf None
               else segmentLoop h latlng latlngs PosInf None))"
| "closest_elements h latlng vertices [] mindist result = Inr result"
| "closest_elements h latlng vertices (sub # rest) mindist result =
     (case closest None h (Value sub) latlng vertices of
        Inl e \<Rightarrow> Inl e
      | Inr None \<Rightarrow> closest_elements h latlng vertices rest mindist result
      | Inr (Some subResult) \<Rightarrow>
          if js_lt (cr_distance subResult) mindist
          then closest_elements h latlng vertices rest (cr_distance subResult) (Some subResult)
          else closest_elements h latlng vertices rest mindist result)"
| "closest_sublists h latlng vertices [] mindist result = Inr result"
| "closest_sublists h latlng vertices (sub # rest) mindist result =
     (case closest None h (Value sub) latlng vertices of
        Inl e \<Rightarrow> Inl e
      | Inr None \<Rightarrow> Inl TypeError
      | Inr (Some subResult) \<Rightarrow>
          if js_lt (cr_distance subResult) mindist
          then closest_sublists h latlng vertices rest (cr_distance subResult) (Some subResult)
          else closest_sublists h latlng vertices rest mindist result)"
  by pat_completeness auto
termination
proof (relation "measures
    [\<lambda>x. case x of
        Inl (Inl (this, h, a, latlng, vertices)) \<Rightarrow> closest_measure a
      | Inl (Inr (this, h, isPolygon, lls, latlng, vertices)) \<Rightarrow> 2 * depth (Arr lls)
      | Inr (Inl (h, latlng, vertices, subs, mindist, result)) \<Rightarrow> 2 * depth (Arr subs)
      | Inr (Inr (h, latlng, vertices, subs, mindist, result)) \<Rightarrow> 2 * depth (Arr subs),
     \<lambda>x. case x of
        Inl (Inl (this, h, a, latlng, vertices)) \<Rightarrow> 0
      | Inl (Inr (this, h, isPolygon, lls, latlng, vertices)) \<Rightarrow> length lls + 2
      | Inr (Inl (h, latlng, vertices, subs, mindist, result)) \<Rightarrow> length subs
      | Inr (Inr (h, latlng, vertices, subs, mindist, result)) \<Rightarrow> length subs]", goal_cases)
  case 1
  then show ?case by simp
next
  case 2
  then show ?case by simp
next
  case 3
  then show ?case using depth_newPolyline by fastforce
next
  case 4
  then show ?case by simp
next
  case 5
  then show ?case by simp
next
  case (6 this h isPolygon lls latlng vertices latlngs)
  have d: "depth (Arr latlngs) = depth (Arr lls)"
  proof (cases isPolygon)
    case True
    with 6 have "addLastSegment h (map json_copy lls) = Inr latlngs" by (simp add: copyLatLngs_def)
    from depth_addLastSegment [OF this] show ?thesis using depth_json_list by simp
  next
    case False
    with 6 show ?thesis using depth_json_list by (auto simp: copyLatLngs_def)
  qed
  have "length latlngs \<le> Suc (length lls)"
  proof (cases isPolygon)
    case True
    with 6 have "addLastSegment h (map json_copy lls) = Inr latlngs" by (simp add: copyLatLngs_def)
    from length_addLastSegment [OF this] show ?thesis by simp
  next
    case False
    with 6 show ?thesis by (auto simp: copyLatLngs_def)
  qed
  with d show ?case by simp
next
  case (7 h latlng vertices sub rest mindist result)
  show ?case using depth_elem [of sub "sub # rest"] by simp
next
  case (8 h latlng vertices sub rest mindist result)
  show ?case using depth_tail [of rest sub] by (auto simp del: depth.simps)
next
  case (9 h latlng vertices sub rest)
  show ?case using depth_tail [of rest sub] by (auto simp del: depth.simps)
next
  case (10 h latlng vertices sub rest)
  show ?case using depth_tail [of rest sub] by (auto simp del: depth.simps)
next
  case (11 h latlng vertices sub rest mindist result)
  show ?case using depth_elem [of sub "sub # rest"] by simp
next
  case (12 h latlng vertices sub rest)
  show ?case using depth_tail [of rest sub] by (auto simp del: depth.simps)
next
  case (13 h latlng vertices sub rest)
  show ?case using depth_tail [of rest sub] by (auto simp del: depth.simps)
qed

declare closest.simps [simp del] closestLatLngs.simps [simp del]

subsection \<open>Closest layer among a list of layers\<close>

text \<open>
  The result of \<open>closestLayer\<close>.  Its \<open>latlng\<close> is the loop variable \<open>ll\<close>, which holds
  \<open>null\<close> after \<open>closest\<close> found nothing.
\<close>

record layer_result =
  lr_layer :: layer
  lr_latlng :: "latlng option"
  lr_distance :: jsnum

text \<open>
  What the loop body computes for a layer that is not a group: the new values of \<open>ll\<close>
  and \<open>distance\<close>.  \<open>distance\<close> keeps its value from the layer before when \<open>closest\<close>
  returns \<open>null\<close>.
\<close>

definition layerCandidate ::
  "receiver \<Rightarrow> host \<Rightarrow> latlng \<Rightarrow> layer \<Rightarrow> jsnum \<Rightarrow> error + latlng option \<times> jsnum" where
  "layerCandidate this h latlng layer distance =
     (case layer of
        Circle _ center r \<Rightarrow>
          (case closestOnCircle h center r latlng of
             Inl e \<Rightarrow> Inl e
           | Inr ll \<Rightarrow>
               (case this_distance this h latlng ll of
                  Inl e \<Rightarrow> Inl e
                | Inr d \<Rightarrow> Inr (Some ll, d)))
      | Marker _ ll \<Rightarrow>
          (case this_distance this h latlng ll of
             Inl e \<Rightarrow> Inl e
           | Inr d \<Rightarrow> Inr (Some ll, d))
      | _ \<Rightarrow>
          (case closest None h (Layer layer) latlng False of
             Inl e \<Rightarrow> Inl e
           | Inr None \<Rightarrow> Inr (None, distance)
           | Inr (Some ll) \<Rightarrow> Inr (Some (cr_latlng ll), cr_distance ll)))"

text \<open>
  The loop keeps \<open>mindist\<close>, \<open>result\<close> and \<open>distance\<close> from one layer to the next.  The
  sub-result of a group is read unguarded.
\<close>

fun closestLayer ::
  "receiver \<Rightarrow> host \<Rightarrow> layer list \<Rightarrow> latlng \<Rightarrow> error + layer_result option"
  and closestLayer_loop ::
  "receiver \<Rightarrow> host \<Rightarrow> latlng \<Rightarrow> layer list \<Rightarrow> jsnum \<Rightarrow> layer_result option \<Rightarrow> jsnum
     \<Rightarrow> error + layer_result option"
where
  "closestLayer this h layers latlng = closestLayer_loop this h latlng layers PosInf None PosInf"
| "closestLayer_loop this h latlng [] mindist result distance = Inr result"
| "closestLayer_loop this h latlng (LayerGroup i children # rest) mindist result distance =
     (case closestLayer None h children latlng of
        Inl e \<Rightarrow> Inl e
      | Inr None \<Rightarrow> Inl TypeError
      | Inr (Some subResult) \<Rightarrow>
          if js_lt (lr_distance subResult) mindist
          then closestLayer_loop this h latlng rest (lr_distance subResult) (Some subResult) distance
          else closestLayer_loop this h latlng rest mindist result distance)"
| "closestLayer_loop this h latlng (layer # rest) mindist result distance =
     (case layerCandidate this h latlng layer distance of
        Inl e \<Rightarrow> Inl e
      | Inr (ll, distance') \<Rightarrow>
          if js_lt distance' mindist
          then closestLayer_loop this h latlng rest distance'
                 (Some \<lparr>lr_layer = layer, lr_latlng = ll, lr_distance = distance'\<rparr>) distance'
          else closestLayer_loop this h latlng rest mindist result distance')"

subsection \<open>Snapping within a tolerance\<close>

fun hasGetLatLngs :: "layer \<Rightarrow> bool" where
  \<comment> \<open>\<open>typeof layer.getLatLngs == 'function'\<close>\<close>
  "hasGetLatLngs (Polyline _ _) = True"
| "hasGetLatLngs (Polygon _ _) = True"
| "hasGetLatLngs _ = False"

text \<open>
  \<open>closestLayerSnap\<close>.  The vertex search is run from \<open>result.latlng\<close>, the point found
  on the layer, and its result is dereferenced unguarded.  A \<open>null\<close> \<open>result.latlng\<close>
  would be handed on as the position to search; no result of \<open>closestLayer\<close> has one
  (lemma \<open>closestLayer_latlng\<close> below), and the model ends that branch in a \<open>TypeError\<close>.
\<close>

definition closestLayerSnap ::
  "receiver \<Rightarrow> host \<Rightarrow> layer list \<Rightarrow> latlng \<Rightarrow> jsnum \<Rightarrow> bool \<Rightarrow> error + layer_result option"
where
  "closestLayerSnap this h layers latlng tolerance withVertices =
     (case closestLayer None h layers latlng of
        Inl e \<Rightarrow> Inl e
      | Inr None \<Rightarrow> Inr None
      | Inr (Some result) \<Rightarrow>
          if js_gt (lr_distance result) tolerance then Inr None
          else if withVertices \<and> hasGetLatLngs (lr_layer result) then
            (case lr_latlng result of
               None \<Rightarrow> Inl TypeError
             | Some found \<Rightarrow>
                 (case closest None h (Layer (lr_layer result)) found True of
                    Inl e \<Rightarrow> Inl e
                  | Inr None \<Rightarrow> Inl TypeError
                  | Inr (Some closestResult) \<Rightarrow>
                      if js_lt (cr_distance closestResult) tolerance then
                        (case this_distance this h (cr_latlng closestResult) latlng of
                           Inl e \<Rightarrow> Inl e
                         | Inr d \<Rightarrow>
                             Inr (Some (result\<lparr>lr_latlng := Some (cr_latlng closestResult),
                                                lr_distance := d\<rparr>)))
                      else Inr (Some result)))
          else Inr (Some result))"

section \<open>The handler\<close>

text \<open>
  The handler's fields \<open>_layers\<close> and \<open>_previous\<close>, and the events it has fired on the
  map so far, oldest first.  \<open>AlmostClick t\<close> is the event \<open>almost:t\<close> for the mouse event
  type \<open>t\<close> (\<open>click\<close> or \<open>dblclick\<close>).
\<close>

datatype event =
    AlmostOver layer "latlng option"
  | AlmostOut layer
  | AlmostMove layer "latlng option"
  | AlmostClick string layer "latlng option"

record handler =
  this_layers :: "layer list"
  this_previous :: "layer_result option"
  fired :: "event list"

definition initialize :: handler where
  "initialize = \<lparr>this_layers = [], this_previous = None, fired = []\<rparr>"

definition fire :: "handler \<Rightarrow> event \<Rightarrow> handler" where
  "fire s ev = s\<lparr>fired := fired s @ [ev]\<rparr>"

fun addLayer :: "handler \<Rightarrow> layer \<Rightarrow> handler" where
  "addLayer s (LayerGroup i children) = foldl addLayer s children"
| "addLayer s layer = s\<lparr>this_layers := this_layers s @ [layer]\<rparr>"

text \<open>\<open>indexOf\<close> compares objects by identity, that is, by their stamp.\<close>

fun indexOf :: "layer list \<Rightarrow> layer \<Rightarrow> nat option" where
  "indexOf [] layer = None"
| "indexOf (l # ls) layer =
     (if stamp l = stamp layer then Some 0 else map_option Suc (indexOf ls layer))"

definition splice1 :: "'a list \<Rightarrow> nat \<Rightarrow> 'a list" where
  \<comment> \<open>\<open>xs.splice(index, 1)\<close>, the array afterwards\<close>
  "splice1 xs index = take index xs @ drop (Suc index) xs"

fun removeLayer :: "handler \<Rightarrow> layer \<Rightarrow> handler" where
  "removeLayer s (LayerGroup i children) = (foldl removeLayer s children)\<lparr>this_previous := None\<rparr>"
| "removeLayer s layer =
     (case indexOf (this_layers s) layer of
        None \<Rightarrow> s
      | Some index \<Rightarrow> s\<lparr>this_layers := splice1 (this_layers s) index\<rparr>)\<lparr>this_previous := None\<rparr>"

definition getClosest :: "host \<Rightarrow> handler \<Rightarrow> latlng \<Rightarrow> error + layer_result option" where
  "getClosest h s latlng =
     closestLayerSnap None h (this_layers s) latlng (almostDistance h) False"

text \<open>
  The event handlers return the handler afterwards and the exception that left them, if
  any.  Nothing in the source catches an exception.  The argument of \<open>onMouseMove\<close> is
  \<open>e.latlng\<close>, which may be missing.
\<close>

definition onMouseMove :: "host \<Rightarrow> handler \<Rightarrow> latlng option \<Rightarrow> handler \<times> error option" where
  "onMouseMove h s e_latlng =
     (case e_latlng of
        None \<Rightarrow> (s, None)
      | Some latlng \<Rightarrow>
          (case getClosest h s latlng of
             Inl err \<Rightarrow> (s, Some err)
           | Inr nearest \<Rightarrow>
               (let s' =
                  (case nearest of
                     Some c \<Rightarrow>
                       fire
                         (case this_previous s of
                            None \<Rightarrow> fire s (AlmostOver (lr_layer c) (lr_latlng c))
                          | Some prev \<Rightarrow>
                              if stamp (lr_layer prev) \<noteq> stamp (lr_layer c)
                              then fire (fire s (AlmostOut (lr_layer prev)))
                                     (AlmostOver (lr_layer c) (lr_latlng c))
                              else s)
                         (AlmostMove (lr_layer c) (lr_latlng c))
                   | None \<Rightarrow>
                       (case this_previous s of
                          Some prev \<Rightarrow> fire s (AlmostOut (lr_layer prev))
                        | None \<Rightarrow> s))
                in (s'\<lparr>this_previous := nearest\<rparr>, None))))"

definition onMouseClick :: "host \<Rightarrow> handler \<Rightarrow> string \<Rightarrow> latlng \<Rightarrow> handler \<times> error option" where
  "onMouseClick h s e_type latlng =
     (case getClosest h s latlng of
        Inl err \<Rightarrow> (s, Some err)
      | Inr None \<Rightarrow> (s, None)
      | Inr (Some c) \<Rightarrow> (fire s (AlmostClick e_type (lr_layer c) (lr_latlng c)), None))"


section \<open>A host for the examples\<close>

text \<open>
  A map whose projections are the identity (\<open>x\<close> is the longitude, \<open>y\<close> the latitude), with
  no maximal zoom, Leaflet's \<open>LineUtil\<close> formulas for the distance to a segment and the
  closest point on it, a \<open>LatLng\<close> constructor that accepts a \<open>LatLng\<close>, an object with
  numeric \<open>lat\<close> and \<open>lng\<close>, or a pair of numbers, and rejects \<open>NaN\<close>, and the default
  \<open>almostDistance\<close> of 25 pixels.  \<open>planarDistance\<close> is the distance between the layer
  points of two positions.  \<open>planeMap\<close> is that map on a host that defines \<open>Util.isArray\<close>,
  \<open>leaflet2Map\<close> the same map on Leaflet 2, which does not.
\<close>

definition sqClosestPointOnSegment :: "point \<Rightarrow> point \<Rightarrow> point \<Rightarrow> point" where
  "sqClosestPointOnSegment p p1 p2 =
     (let x = px p1; y = py p1;
          dx = js_sub (px p2) x; dy = js_sub (py p2) y;
          dot = js_add (js_mul dx dx) (js_mul dy dy)
      in if js_gt dot (Fin 0) then
           (let t = js_div (js_add (js_mul (js_sub (px p) x) dx) (js_mul (js_sub (py p) y) dy)) dot
            in if js_gt t (Fin 1) then \<lparr>px = px p2, py = py p2\<rparr>
               else if js_gt t (Fin 0)
                    then \<lparr>px = js_add x (js_mul dx t), py = js_add y (js_mul dy t)\<rparr>
                    else \<lparr>px = x, py = y\<rparr>)
         else \<lparr>px = x, py = y\<rparr>)"

definition pointDistance :: "point \<Rightarrow> point \<Rightarrow> jsnum" where
  "pointDistance p q =
     (let dx = js_sub (px q) (px p); dy = js_sub (py q) (py p)
      in js_sqrt (js_add (js_mul dx dx) (js_mul dy dy)))"

definition planeMap :: host where
  "planeMap =
     \<lparr>latLngToLayerPoint = (\<lambda>ll. \<lparr>px = lng ll, py = lat ll\<rparr>),
      project = (\<lambda>ll zoom. \<lparr>px = lng ll, py = lat ll\<rparr>),
      unproject = (\<lambda>p zoom. \<lparr>lat = py p, lng = px p\<rparr>),
      getMaxZoom = PosInf,
      getZoom = Fin 0,
      pointToSegmentDistance = (\<lambda>p p1 p2. pointDistance p (sqClosestPointOnSegment p p1 p2)),
      closestPointOnSegment = sqClosestPointOnSegment,
      newLatLng = (\<lambda>v. case v of
                      LatLngObj ll \<Rightarrow> Inr ll
                    | Obj (Some a) (Some b) \<Rightarrow> Inr \<lparr>lat = a, lng = b\<rparr>
                    | Arr [Num a, Num b] \<Rightarrow> Inr \<lparr>lat = a, lng = b\<rparr>
                    | _ \<Rightarrow> Inl HostError),
      newLatLng2 = (\<lambda>a b. if a = NaN \<or> b = NaN then Inl HostError
                           else Inr \<lparr>lat = a, lng = b\<rparr>),
      almostDistance = Fin 25,
      hasIsArray = True\<rparr>"

definition leaflet2Map :: host where
  "leaflet2Map = planeMap\<lparr>hasIsArray := False\<rparr>"

definition planarDistance :: "host \<Rightarrow> latlng \<Rightarrow> latlng \<Rightarrow> jsnum" where
  "planarDistance h a b = pointDistance (latLngToLayerPoint h a) (latLngToLayerPoint h b)"

definition pos :: "real \<Rightarrow> real \<Rightarrow> latlng" where
  \<comment> \<open>the position with longitude \<open>x\<close> and latitude \<open>y\<close>\<close>
  "pos x y = \<lparr>lat = Fin y, lng = Fin x\<rparr>"

definition lineA :: layer where
  "lineA = Polyline 1 [LatLngObj (pos 0 0), LatLngObj (pos 10 0)]"

definition lineB :: layer where
  "lineB = Polyline 2 [LatLngObj (pos 0 100), LatLngObj (pos 10 100)]"

lemmas example_defs =
  planeMap_def sqClosestPointOnSegment_def pointDistance_def planarDistance_def pos_def
  lineA_def lineB_def distanceSegment_def closestOnSegment_def closestOnCircle_def
  isFlat_def isNestedArray_def isCoordinateArray_def index0_def newPolyline_def
  this_distance_def js_sub_def js_gt_def js_le_def js_signed_inf_def Let_def
  closest.simps closestLatLngs.simps copyLatLngs_def layerCandidate_def closestLayerSnap_def getClosest_def


definition shortRing :: layer where
  \<comment> \<open>a polyline whose only sub-list holds a single point\<close>
  "shortRing = Polyline 4 [Arr [LatLngObj (pos 0 0)]]"

definition markerM :: layer where
  "markerM = Marker 8 (pos 3 4)"

definition circleC :: layer where
  "circleC = Circle 9 (pos 0 0) (RadNum (Fin 1))"

definition groupG :: layer where
  "groupG = LayerGroup 5 [lineA, LayerGroup 6 [lineB]]"

definition trackingA :: handler where
  \<comment> \<open>both lines registered, the pointer last seen near \<open>lineA\<close>\<close>
  "trackingA =
     \<lparr>this_layers = [lineA, lineB],
      this_previous = Some \<lparr>lr_layer = lineA, lr_latlng = Some (pos 5 0), lr_distance = Fin 1\<rparr>,
      fired = []\<rparr>"

definition trackingShort :: handler where
  "trackingShort = trackingA\<lparr>this_layers := [lineA, shortRing]\<rparr>"

section \<open>The registered layers\<close>

text \<open>
  \<open>isGroup\<close> is the test \<open>typeof layer.eachLayer === 'function'\<close>; \<open>leaves\<close> lists the
  layers of a group that are not groups, in the order of the traversal.  A handler is
  reachable when it results from \<open>initialize\<close> by the handler's operations.  \<open>stamps\<close>
  counts a list of layers by identity.  \<open>removeOne\<close> is what \<open>removeLayer\<close> does to
  \<open>_layers\<close> for a layer that is not a group.
\<close>

fun isGroup :: "layer \<Rightarrow> bool" where
  "isGroup (LayerGroup _ _) = True"
| "isGroup _ = False"

fun leaves :: "layer \<Rightarrow> layer list" where
  "leaves (LayerGroup i children) = concat (map leaves children)"
| "leaves layer = [layer]"

inductive reachable :: "host \<Rightarrow> handler \<Rightarrow> bool" for h :: host where
  init: "reachable h initialize"
| add: "reachable h s \<Longrightarrow> reachable h (addLayer s layer)"
| remove: "reachable h s \<Longrightarrow> reachable h (removeLayer s layer)"
| move: "reachable h s \<Longrightarrow> reachable h (fst (onMouseMove h s e_latlng))"
| click: "reachable h s \<Longrightarrow> reachable h (fst (onMouseClick h s e_type latlng))"

definition stamps :: "layer list \<Rightarrow> nat multiset" where
  "stamps ls = mset (map stamp ls)"

lemma leaves_not_group: "l \<in> set (leaves layer) \<Longrightarrow> \<not> isGroup l"
  by (induction layer arbitrary: l rule: leaves.induct) auto

lemma foldl_addLayer:
  assumes "\<And>c s. c \<in> set cs \<Longrightarrow> addLayer s c = s\<lparr>this_layers := this_layers s @ leaves c\<rparr>"
  shows "foldl addLayer s cs = s\<lparr>this_layers := this_layers s @ concat (map leaves cs)\<rparr>"
  using assms by (induction cs arbitrary: s) simp_all

lemma addLayer_leaves: "addLayer s layer = s\<lparr>this_layers := this_layers s @ leaves layer\<rparr>"
proof (induction s layer rule: addLayer.induct)
  case (1 s i children)
  then show ?case using foldl_addLayer [of children s] by simp
qed simp_all

definition removeOne :: "layer list \<Rightarrow> layer \<Rightarrow> layer list" where
  "removeOne ls layer = (case indexOf ls layer of None \<Rightarrow> ls | Some index \<Rightarrow> splice1 ls index)"

lemma removeOne_Cons:
  "removeOne (l # ls) layer = (if stamp l = stamp layer then ls else l # removeOne ls layer)"
  by (auto simp: removeOne_def splice1_def split: option.splits)

lemma stamps_removeOne: "stamps (removeOne ls layer) = stamps ls - {#stamp layer#}"
proof (induction ls)
  case Nil
  then show ?case by (simp add: removeOne_def stamps_def)
next
  case (Cons l ls)
  then show ?case by (simp add: removeOne_Cons stamps_def)
qed

lemma removeOne_Nil: "removeOne [] layer = []"
  by (simp add: removeOne_def)

lemma removeOne_subset: "set (removeOne ls layer) \<subseteq> set ls"
  by (induction ls) (auto simp: removeOne_Cons removeOne_Nil)

lemma foldl_removeLayer:
  assumes "\<And>c s. c \<in> set cs \<Longrightarrow>
     this_layers (removeLayer s c) = foldl removeOne (this_layers s) (leaves c)"
  shows "this_layers (foldl removeLayer s cs) = foldl removeOne (this_layers s) (concat (map leaves cs))"
  using assms by (induction cs arbitrary: s) simp_all

lemma removeLayer_leaves:
  "this_layers (removeLayer s layer) = foldl removeOne (this_layers s) (leaves layer)"
proof (induction s layer rule: removeLayer.induct)
  case (1 s i children)
  then show ?case using foldl_removeLayer [of children s] by simp
qed (simp_all add: removeOne_def split: option.splits)

lemma stamps_Cons: "stamps (x # xs) = add_mset (stamp x) (stamps xs)"
  by (simp add: stamps_def)

lemma stamps_foldl_removeOne: "stamps (foldl removeOne ls xs) = stamps ls - stamps xs"
proof (induction xs arbitrary: ls)
  case Nil
  then show ?case by (simp add: stamps_def)
next
  case (Cons x xs)
  have "stamps (foldl removeOne ls (x # xs)) = stamps (removeOne ls x) - stamps xs"
    using Cons.IH by simp
  also have "\<dots> = stamps ls - {#stamp x#} - stamps xs"
    by (simp add: stamps_removeOne)
  also have "\<dots> = stamps ls - stamps (x # xs)"
    by (simp add: stamps_Cons)
  finally show ?case .
qed

lemma foldl_removeOne_subset: "set (foldl removeOne ls xs) \<subseteq> set ls"
proof (induction xs arbitrary: ls)
  case Nil
  then show ?case by simp
next
  case (Cons x xs)
  then show ?case using removeOne_subset [of ls x] by fastforce
qed

lemma onMouseMove_layers: "this_layers (fst (onMouseMove h s e)) = this_layers s"
  by (simp add: onMouseMove_def fire_def Let_def split: option.splits sum.splits)

lemma onMouseClick_layers: "this_layers (fst (onMouseClick h s t p)) = this_layers s"
  by (simp add: onMouseClick_def fire_def split: option.splits sum.splits)

lemma reachable_no_group: "reachable h s \<Longrightarrow> l \<in> set (this_layers s) \<Longrightarrow> \<not> isGroup l"
proof (induction arbitrary: l rule: reachable.induct)
  case init
  then show ?case by (simp add: initialize_def)
next
  case (add s layer)
  then show ?case using leaves_not_group by (auto simp: addLayer_leaves)
next
  case (remove s layer)
  then show ?case using foldl_removeOne_subset [of "this_layers s" "leaves layer"]
    by (auto simp: removeLayer_leaves)
next
  case (move s e_latlng)
  then show ?case by (simp add: onMouseMove_layers)
next
  case (click s e_type latlng)
  then show ?case by (simp add: onMouseClick_layers)
qed

lemma stamps_count_zero:
  assumes "distinct (map stamp ls)" and "stamp l \<in> set (map stamp xs)"
  shows "stamp l \<notin> stamp ` set (foldl removeOne ls xs)"
proof -
  have a: "count (stamps ls) (stamp l) \<le> 1"
    using assms(1) by (simp add: stamps_def distinct_count_atmost_1 split: if_splits)
  have b: "0 < count (stamps xs) (stamp l)"
    using assms(2) by (simp add: stamps_def)
  have "count (stamps (foldl removeOne ls xs)) (stamp l) =
        count (stamps ls) (stamp l) - count (stamps xs) (stamp l)"
    by (simp add: stamps_foldl_removeOne)
  with a b have "count (stamps (foldl removeOne ls xs)) (stamp l) = 0"
    by arith
  then show ?thesis by (simp add: stamps_def count_eq_zero_iff)
qed

text \<open>
  C8, as the claim states it, fails: \<open>lineA\<close> is registered on its own and then once more
  as a member of \<open>groupG\<close>; removing the group removes one of the two occurrences, and
  \<open>lineA\<close>, a leaf of the group, is still registered afterwards.
\<close>

theorem removeLayer_group_counterexample:
  "reachable planeMap (addLayer (addLayer initialize lineA) groupG)
   \<and> this_layers (addLayer (addLayer initialize lineA) groupG) = [lineA, lineA, lineB]
   \<and> leaves groupG = [lineA, lineB]
   \<and> this_layers (removeLayer (addLayer (addLayer initialize lineA) groupG) groupG) = [lineA]"
proof -
  have "reachable planeMap (addLayer (addLayer initialize lineA) groupG)"
    by (intro reachable.add reachable.init)
  then show ?thesis
    by (simp add: groupG_def lineA_def lineB_def initialize_def splice1_def)
qed

text \<open>
  C8, amended.  In every reachable handler no registered layer is a group.  \<open>addLayer\<close>
  appends the leaves of its argument, none of which is a group, also those that are
  registered already.  \<open>removeLayer\<close> walks the same leaves and removes one registered
  occurrence of each, found by identity: counted by stamps, the registered layers afterwards
  are those before minus the leaves, so that adding a layer and removing it again leaves the
  registered layers as they were, and when no layer was registered twice, none of the leaves
  is registered afterwards.
\<close>

theorem registered_layers_are_leaves:
  assumes "reachable h s"
  shows "(\<forall>l \<in> set (this_layers s). \<not> isGroup l)
       \<and> this_layers (addLayer s layer) = this_layers s @ leaves layer
       \<and> (\<forall>l \<in> set (leaves layer). \<not> isGroup l)
       \<and> this_layers (removeLayer s layer) = foldl removeOne (this_layers s) (leaves layer)
       \<and> stamps (this_layers (removeLayer s layer)) = stamps (this_layers s) - stamps (leaves layer)
       \<and> stamps (this_layers (removeLayer (addLayer s layer) layer)) = stamps (this_layers s)
       \<and> (distinct (map stamp (this_layers s)) \<longrightarrow>
            (\<forall>l \<in> set (leaves layer). stamp l \<notin> stamp ` set (this_layers (removeLayer s layer))))"
proof -
  have "stamps (this_layers (removeLayer (addLayer s layer) layer)) =
        stamps (this_layers s @ leaves layer) - stamps (leaves layer)"
    by (simp add: removeLayer_leaves stamps_foldl_removeOne addLayer_leaves)
  then have "stamps (this_layers (removeLayer (addLayer s layer) layer)) = stamps (this_layers s)"
    by (simp add: stamps_def)
  moreover have "stamp l \<notin> stamp ` set (this_layers (removeLayer s layer))"
    if "distinct (map stamp (this_layers s))" and "l \<in> set (leaves layer)" for l
    using stamps_count_zero [OF that(1), of l "leaves layer"] that(2)
    by (simp add: removeLayer_leaves)
  ultimately show ?thesis
    using assms reachable_no_group leaves_not_group
    by (auto simp: addLayer_leaves removeLayer_leaves stamps_foldl_removeOne)
qed

theorem registered_layers_are_leaves_witness:
  "reachable planeMap (addLayer initialize groupG)
   \<and> this_layers (addLayer initialize groupG) = [lineA, lineB]
   \<and> \<not> isGroup lineA \<and> \<not> isGroup lineB
   \<and> leaves groupG = [lineA, lineB]
   \<and> distinct (map stamp (this_layers (addLayer initialize groupG)))
   \<and> this_layers (removeLayer (addLayer initialize groupG) groupG) = []
   \<and> stamps (this_layers (removeLayer (addLayer (addLayer initialize lineA) groupG) groupG)) =
       stamps [lineA]"
proof -
  have r: "reachable planeMap (addLayer initialize groupG)"
    by (rule reachable.add) (rule reachable.init)
  have r0: "reachable planeMap (addLayer initialize lineA)"
    by (rule reachable.add) (rule reachable.init)
  have l: "leaves groupG = [lineA, lineB]" by (simp add: groupG_def lineA_def lineB_def)
  have a: "this_layers (addLayer initialize groupG) = [lineA, lineB]"
    by (simp add: groupG_def lineA_def lineB_def initialize_def)
  have a0: "this_layers (addLayer initialize lineA) = [lineA]"
    by (simp add: lineA_def initialize_def)
  have d: "distinct (map stamp (this_layers (addLayer initialize groupG)))"
    by (simp add: a lineA_def lineB_def)
  from registered_layers_are_leaves [OF r, of groupG] a l
  have "this_layers (removeLayer (addLayer initialize groupG) groupG) =
          foldl removeOne [lineA, lineB] [lineA, lineB]"
    by simp
  then have e: "this_layers (removeLayer (addLayer initialize groupG) groupG) = []"
    by (simp add: removeOne_Cons lineA_def lineB_def)
  from registered_layers_are_leaves [OF r0, of groupG] a0
  have t: "stamps (this_layers (removeLayer (addLayer (addLayer initialize lineA) groupG) groupG)) =
       stamps [lineA]"
    by simp
  from r a l d e t show ?thesis by (simp add: lineA_def lineB_def)
qed


section \<open>The pointer-move handler\<close>

lemma getClosest_trackingA:
  "getClosest planeMap trackingA (pos 5 99) =
     Inr (Some \<lparr>lr_layer = lineB, lr_latlng = Some (pos 5 100), lr_distance = Fin 1\<rparr>)"
  by (simp add: trackingA_def example_defs)

text \<open>
  C5.  When the query finds a layer \<open>c\<close> within tolerance while another layer, one with a
  different stamp, was tracked, \<open>_onMouseMove\<close> fires \<open>almost:out\<close> for the tracked layer,
  then \<open>almost:over\<close> for the new one, then \<open>almost:move\<close> for the new one with the point
  found on it, these three and in this order, and tracks the new layer afterwards.
\<close>

theorem onMouseMove_out_then_over:
  assumes "getClosest h s latlng = Inr (Some c)"
    and "this_previous s = Some prev"
    and "stamp (lr_layer prev) \<noteq> stamp (lr_layer c)"
  shows "onMouseMove h s (Some latlng) =
           (s\<lparr>fired := fired s @ [AlmostOut (lr_layer prev),
                                   AlmostOver (lr_layer c) (lr_latlng c),
                                   AlmostMove (lr_layer c) (lr_latlng c)],
              this_previous := Some c\<rparr>, None)"
  using assms by (simp add: onMouseMove_def fire_def)

theorem onMouseMove_out_then_over_witness:
  "getClosest planeMap trackingA (pos 5 99) =
     Inr (Some \<lparr>lr_layer = lineB, lr_latlng = Some (pos 5 100), lr_distance = Fin 1\<rparr>)
   \<and> this_previous trackingA =
       Some \<lparr>lr_layer = lineA, lr_latlng = Some (pos 5 0), lr_distance = Fin 1\<rparr>
   \<and> stamp lineA \<noteq> stamp lineB
   \<and> onMouseMove planeMap trackingA (Some (pos 5 99)) =
       (trackingA\<lparr>fired := [AlmostOut lineA, AlmostOver lineB (Some (pos 5 100)),
                             AlmostMove lineB (Some (pos 5 100))],
                  this_previous :=
                    Some \<lparr>lr_layer = lineB, lr_latlng = Some (pos 5 100), lr_distance = Fin 1\<rparr>\<rparr>,
        None)"
proof -
  have p: "this_previous trackingA =
       Some \<lparr>lr_layer = lineA, lr_latlng = Some (pos 5 0), lr_distance = Fin 1\<rparr>"
    by (simp add: trackingA_def)
  have f: "fired trackingA = []" by (simp add: trackingA_def)
  have d: "stamp lineA \<noteq> stamp lineB" by (simp add: lineA_def lineB_def)
  from onMouseMove_out_then_over [OF getClosest_trackingA p] d f
  show ?thesis using getClosest_trackingA p by simp
qed

text \<open>
  A failing query.  The one-point sub-list of \<open>shortRing\<close> yields \<open>null\<close>, and the loop
  over the sub-lists reads \<open>subResult.distance\<close> of it.
\<close>

lemma getClosest_trackingShort: "getClosest planeMap trackingShort (pos 5 1) = Inl TypeError"
  by (simp add: trackingShort_def trackingA_def shortRing_def example_defs)

text \<open>
  C2, as the claim states it, fails: with \<open>lineA\<close> tracked and \<open>shortRing\<close> registered
  beside it, the query raises a \<open>TypeError\<close> and the exception leaves \<open>_onMouseMove\<close>;
  the event is not handled as a miss of the pointer.
\<close>

theorem onMouseMove_failure_counterexample:
  "getClosest planeMap trackingShort (pos 5 1) = Inl TypeError
   \<and> onMouseMove planeMap trackingShort (Some (pos 5 1)) = (trackingShort, Some TypeError)"
  by (simp add: getClosest_trackingShort onMouseMove_def)

text \<open>
  C2, amended.  A failure of the query leaves \<open>_onMouseMove\<close> as an exception.  The
  handler has fired nothing by then and has changed neither \<open>_previous\<close> nor \<open>_layers\<close>,
  so the next event is handled from the same state.
\<close>

theorem onMouseMove_failure_propagates:
  assumes "getClosest h s latlng = Inl err"
  shows "onMouseMove h s (Some latlng) = (s, Some err)"
  using assms by (simp add: onMouseMove_def)

theorem onMouseMove_failure_propagates_witness:
  "getClosest planeMap trackingShort (pos 5 1) = Inl TypeError
   \<and> onMouseMove planeMap trackingShort (Some (pos 5 1)) = (trackingShort, Some TypeError)
   \<and> this_previous (fst (onMouseMove planeMap trackingShort (Some (pos 5 1)))) =
       Some \<lparr>lr_layer = lineA, lr_latlng = Some (pos 5 0), lr_distance = Fin 1\<rparr>"
  using onMouseMove_failure_propagates [OF getClosest_trackingShort] getClosest_trackingShort
  by (simp add: trackingShort_def trackingA_def)

section \<open>Removing a layer\<close>

lemma removeLayer_fired: "fired (removeLayer s layer) = fired s"
proof (induction s layer rule: removeLayer.induct)
  case (1 s i children)
  have "fired (foldl removeLayer s' cs) = fired s'" if "set cs \<subseteq> set children" for cs s'
    using that
  proof (induction cs arbitrary: s')
    case Nil
    then show ?case by simp
  next
    case (Cons c cs)
    then show ?case using 1 by simp
  qed
  then show ?case by simp
qed (simp_all split: option.splits)

lemma removeLayer_previous: "this_previous (removeLayer s layer) = None"
  by (cases layer) (simp_all split: option.splits)

text \<open>
  C9.  Whatever the handler and the layer, \<open>removeLayer\<close> leaves \<open>_previous\<close> empty, also
  when the layer is not the tracked one or is not registered at all, and fires no event.
\<close>

theorem removeLayer_resets_silently:
  "this_previous (removeLayer s layer) = None \<and> fired (removeLayer s layer) = fired s"
  by (simp add: removeLayer_previous removeLayer_fired)

theorem removeLayer_resets_silently_witness:
  "this_previous trackingA \<noteq> None
   \<and> this_previous (removeLayer trackingA lineB) = None
   \<and> fired (removeLayer trackingA lineB) = []
   \<and> this_layers (removeLayer trackingA lineB) = [lineA]
   \<and> this_previous (removeLayer trackingA lineA) = None
   \<and> fired (removeLayer trackingA lineA) = []"
  using removeLayer_resets_silently [of trackingA lineB]
    removeLayer_resets_silently [of trackingA lineA]
  by (simp add: trackingA_def lineA_def lineB_def splice1_def)


section \<open>Failures of the geometry functions\<close>

lemma closestOnCircle_center:
  "closestOnCircle h \<lparr>lat = Fin a, lng = Fin b\<rparr> r \<lparr>lat = Fin a, lng = Fin b\<rparr> = newLatLng2 h NaN NaN"
  by (cases r; rename_tac x; case_tac x) (simp_all add: closestOnCircle_def js_sub_def)

lemma layerCandidate_circle_fails:
  "closestOnCircle h center r latlng = Inl e \<Longrightarrow>
   layerCandidate this h latlng (Circle i center r) distance = Inl e"
  by (simp add: layerCandidate_def)

text \<open>Once the loop of \<open>closestLayer\<close> reaches a layer that fails, the loop fails.\<close>

lemma closestLayer_loop_reaches_failure:
  assumes "\<And>distance. \<exists>e. layerCandidate this h latlng (Circle i center r) distance = Inl e"
  shows "\<exists>e. closestLayer_loop this h latlng (pre @ Circle i center r # rest) mindist result distance
           = Inl e"
proof (induction pre arbitrary: mindist result distance)
  case Nil
  from assms [of distance] show ?case by auto
next
  case (Cons x pre)
  show ?case
  proof (cases x)
    case (LayerGroup j children)
    then show ?thesis using Cons.IH
      by (cases "closestLayer None h children latlng") (auto split: option.splits)
  next
    case (Circle j c q)
    then show ?thesis using Cons.IH
      by (cases "layerCandidate this h latlng x distance") auto
  next
    case (Marker j c)
    then show ?thesis using Cons.IH
      by (cases "layerCandidate this h latlng x distance") auto
  next
    case (Polyline j lls)
    then show ?thesis using Cons.IH
      by (cases "layerCandidate this h latlng x distance") auto
  next
    case (Polygon j lls)
    then show ?thesis using Cons.IH
      by (cases "layerCandidate this h latlng x distance") auto
  next
    case (OtherLayer j)
    then show ?thesis using Cons.IH
      by (cases "layerCandidate this h latlng x distance") auto
  qed
qed

text \<open>
  C1, as the claim states it, fails: with the query at the centre of \<open>circleC\<close>,
  \<open>closestOnCircle\<close> fails, and \<open>closestLayer\<close> on \<open>lineA\<close> and the circle fails with
  the same error, although \<open>lineA\<close> alone gives a result there.
\<close>

theorem closestLayer_circle_counterexample:
  "closestOnCircle planeMap (pos 0 0) (RadNum (Fin 1)) (pos 0 0) = Inl HostError
   \<and> closestLayer None planeMap [lineA] (pos 0 0) =
       Inr (Some \<lparr>lr_layer = lineA, lr_latlng = Some (pos 0 0), lr_distance = Fin 0\<rparr>)
   \<and> closestLayer None planeMap [lineA, circleC] (pos 0 0) = Inl HostError"
  by (simp add: circleC_def example_defs)

text \<open>
  C1, amended.  For a circle whose centre is the query point, with finite coordinates,
  \<open>closestOnCircle\<close> divides zero by zero and hands \<open>NaN\<close> coordinates to the \<open>LatLng\<close>
  constructor: it fails exactly when the constructor does.  \<open>closestLayer\<close> has no guard:
  when \<open>closestOnCircle\<close> fails, \<open>closestLayer\<close> fails with the same error if the circle is
  the first layer, and with some error wherever the circle stands in the list.
\<close>

theorem closestLayer_propagates_circle_failure:
  assumes "center = \<lparr>lat = Fin a, lng = Fin b\<rparr>"
  shows "closestOnCircle h center r center = newLatLng2 h NaN NaN
       \<and> (\<forall>e. closestOnCircle h center r center = Inl e \<longrightarrow>
             closestLayer this h (Circle i center r # rest) center = Inl e
             \<and> (\<exists>e'. closestLayer this h (pre @ Circle i center r # rest) center = Inl e'))"
proof (intro conjI allI impI)
  show "closestOnCircle h center r center = newLatLng2 h NaN NaN"
    using assms closestOnCircle_center by simp
next
  fix e assume f: "closestOnCircle h center r center = Inl e"
  then show "closestLayer this h (Circle i center r # rest) center = Inl e"
    by (simp add: layerCandidate_def)
  from f have "\<And>distance. \<exists>e. layerCandidate this h center (Circle i center r) distance = Inl e"
    by (simp add: layerCandidate_circle_fails)
  from closestLayer_loop_reaches_failure [OF this]
  show "\<exists>e'. closestLayer this h (pre @ Circle i center r # rest) center = Inl e'"
    by simp
qed

theorem closestLayer_propagates_circle_failure_witness:
  "pos 0 0 = \<lparr>lat = Fin 0, lng = Fin 0\<rparr>
   \<and> closestOnCircle planeMap (pos 0 0) (RadNum (Fin 1)) (pos 0 0) = newLatLng2 planeMap NaN NaN
   \<and> closestOnCircle planeMap (pos 0 0) (RadNum (Fin 1)) (pos 0 0) = Inl HostError
   \<and> closestLayer None planeMap [circleC, lineB] (pos 0 0) = Inl HostError
   \<and> (\<exists>e'. closestLayer None planeMap [lineA, circleC, lineB] (pos 0 0) = Inl e')"
proof -
  have p: "pos 0 0 = \<lparr>lat = Fin 0, lng = Fin 0\<rparr>" by (simp add: pos_def)
  have f: "closestOnCircle planeMap (pos 0 0) (RadNum (Fin 1)) (pos 0 0) = Inl HostError"
    by (simp add: example_defs)
  from closestLayer_propagates_circle_failure
         [OF p, of planeMap "RadNum (Fin 1)" None 9 "[lineB]" "[lineA]"] f p
  show ?thesis by (simp add: circleC_def)
qed

text \<open>
  With the receiver \<open>undefined\<close>, the only one the source passes, no circle and no layer
  with a \<open>getLatLng\<close> method gets past \<open>this.distance\<close>, wherever the query point is.
\<close>

lemma closestLayer_marker_undefined_receiver:
  "closestLayer None h (Marker i ll # rest) latlng = Inl TypeError"
  by (simp add: layerCandidate_def this_distance_def)

lemma closestLayer_circle_undefined_receiver:
  "\<exists>e. closestLayer None h (Circle i center r # rest) latlng = Inl e"
  by (cases "closestOnCircle h center r latlng") (simp_all add: layerCandidate_def this_distance_def)

lemma closestLayer_empty_group:
  "closestLayer this h (LayerGroup i [] # rest) latlng = Inl TypeError"
  by simp

text \<open>
  C10 fails on the code: \<open>closestLayer\<close> raises a \<open>TypeError\<close> on a list that holds an
  empty group (the sub-result \<open>null\<close> is dereferenced), a polyline whose sub-list has one
  point (\<open>closest\<close> dereferences the \<open>null\<close> of that sub-list), a marker or a circle
  (\<open>this.distance\<close> on the receiver \<open>undefined\<close>).
\<close>

theorem closestLayer_raises:
  "closestLayer None planeMap [LayerGroup 7 []] (pos 5 1) = Inl TypeError
   \<and> closestLayer None planeMap [shortRing] (pos 5 1) = Inl TypeError
   \<and> closestLayer None planeMap [markerM] (pos 5 1) = Inl TypeError
   \<and> closestLayer None planeMap [circleC] (pos 5 1) = Inl TypeError"
  by (simp add: shortRing_def markerM_def circleC_def example_defs)

text \<open>
  With the receiver \<open>undefined\<close> the search over vertices never returns a point: the
  first vertex it converts ends in \<open>this.distance\<close>.
\<close>

lemma vertexLoop_undefined_receiver:
  "vertexLoop None h latlng vs m None \<noteq> Inr (Some r)"
  by (cases vs) (auto simp: this_distance_def split: sum.splits)

lemma vertex_search_undefined_receiver:
  "vertices \<Longrightarrow> this = None \<Longrightarrow> closest this h a latlng vertices \<noteq> Inr (Some r)"
  "vertices \<Longrightarrow> this = None \<Longrightarrow> closestLatLngs this h p lls latlng vertices \<noteq> Inr (Some r)"
  "vertices \<Longrightarrow> result = None \<Longrightarrow> closest_elements h latlng vertices subs m result \<noteq> Inr (Some r)"
  "vertices \<Longrightarrow> result = None \<Longrightarrow> closest_sublists h latlng vertices subs m result \<noteq> Inr (Some r)"
proof (induction this h a latlng vertices and this h p lls latlng vertices
         and h latlng vertices subs m result and h latlng vertices subs m result
         arbitrary: r and r and r and r
         rule: closest_closestLatLngs_closest_elements_closest_sublists.induct)
  case (1 this h v latlng vertices)
  then show ?case
    by (auto simp: closest.simps split: jsval.splits sum.splits bool.splits if_splits)
next
  case (2 this h l latlng vertices)
  then show ?case by (auto simp: closest.simps split: layer.splits)
next
  case (3 this h isPolygon lls latlng vertices)
  then show ?case
    using vertexLoop_undefined_receiver
    by (auto simp: closestLatLngs.simps split: sum.splits bool.splits if_splits)
next
  case (4 h latlng vertices mindist result)
  then show ?case by simp
next
  case (5 h latlng vertices sub rest mindist result)
  then show ?case by (auto split: sum.splits option.splits if_splits)
next
  case (6 h latlng vertices mindist result)
  then show ?case by simp
next
  case (7 h latlng vertices sub rest mindist result)
  then show ?case by (auto split: sum.splits option.splits if_splits)
qed


section \<open>Arguments that \<open>closest\<close> cannot decompose\<close>

text \<open>
  C6, as the claim states it, fails: for a marker, for an array of strings and for a
  number, \<open>closest\<close> returns \<open>null\<close>; it raises nothing.
\<close>

theorem closest_unsupported_counterexample:
  "closest None planeMap (Layer markerM) (pos 5 1) False = Inr None
   \<and> closest None planeMap (Value (Arr [Str ''abc''])) (pos 5 1) False = Inr None
   \<and> closest None planeMap (Value (Num (Fin 3))) (pos 5 1) False = Inr None"
  by (simp add: markerM_def example_defs)

text \<open>
  C6, amended.  \<open>closest\<close> returns \<open>null\<close>, without an error, for every layer that is not a
  \<open>Polyline\<close>, for every value that is not an array, and for every array that fails both
  tests on its first element (the second test having been evaluated without a
  \<open>TypeError\<close>, that is, the first element being neither \<open>undefined\<close> nor \<open>null\<close>).
\<close>

theorem closest_unsupported_is_null:
  "(\<not> hasGetLatLngs l \<longrightarrow> closest this h (Layer l) latlng vertices = Inr None)
   \<and> (\<not> isArray v \<longrightarrow> closest this h (Value v) latlng vertices = Inr None)
   \<and> (\<not> isNestedArray layer \<and> isCoordinateArray layer = Inr False \<longrightarrow>
        closest this h (Value (Arr layer)) latlng vertices = Inr None)"
proof (intro conjI impI)
  assume "\<not> hasGetLatLngs l"
  then show "closest this h (Layer l) latlng vertices = Inr None"
    by (cases l) (simp_all add: closest.simps)
next
  assume "\<not> isArray v"
  then show "closest this h (Value v) latlng vertices = Inr None"
    by (cases v) (simp_all add: closest.simps)
next
  assume "\<not> isNestedArray layer \<and> isCoordinateArray layer = Inr False"
  then show "closest this h (Value (Arr layer)) latlng vertices = Inr None"
    by (simp add: closest.simps)
qed

theorem closest_unsupported_is_null_witness:
  "\<not> hasGetLatLngs markerM
   \<and> closest None planeMap (Layer markerM) (pos 5 1) False = Inr None
   \<and> \<not> isArray (Num (Fin 3))
   \<and> closest None planeMap (Value (Num (Fin 3))) (pos 5 1) False = Inr None
   \<and> \<not> isNestedArray [Str ''abc'']
   \<and> isCoordinateArray [Str ''abc''] = Inr False
   \<and> closest None planeMap (Value (Arr [Str ''abc''])) (pos 5 1) False = Inr None"
proof -
  have a: "\<not> hasGetLatLngs markerM" by (simp add: markerM_def)
  have b: "\<not> isArray (Num (Fin 3))" by simp
  have c: "\<not> isNestedArray [Str ''abc''] \<and> isCoordinateArray [Str ''abc''] = Inr False"
    by (simp add: isNestedArray_def isCoordinateArray_def index0_def)
  from closest_unsupported_is_null
         [of markerM None planeMap "pos 5 1" False "Num (Fin 3)" "[Str ''abc'']"] a b c
  show ?thesis by simp
qed


section \<open>Ties between candidates\<close>

text \<open>
  Every loop that tracks a minimum has the same shape: it runs over candidates, each with
  a distance, and replaces the running minimum and the result when the comparison
  \<open>better\<close> holds between the candidate's distance and the minimum.  \<open>scan_min\<close> is that
  loop.  \<open>first_min ds j\<close> says that \<open>j\<close> is the first position of the least distance in
  \<open>ds\<close>, \<open>last_min ds j\<close> that it is the last one; both are stated with the comparisons
  of the source, so that a \<open>NaN\<close> among the distances is covered.
\<close>

fun scan_min :: "(jsnum \<Rightarrow> jsnum \<Rightarrow> bool) \<Rightarrow> (jsnum \<times> 'a) list \<Rightarrow> jsnum \<Rightarrow> 'a option \<Rightarrow> 'a option" where
  "scan_min better [] mindist result = result"
| "scan_min better ((d, x) # rest) mindist result =
     (if better d mindist then scan_min better rest d (Some x)
      else scan_min better rest mindist result)"

definition first_min :: "jsnum list \<Rightarrow> nat \<Rightarrow> bool" where
  "first_min ds j =
     (j < length ds \<and> js_lt (ds ! j) PosInf
      \<and> (\<forall>i<j. js_lt (ds ! j) (ds ! i))
      \<and> (\<forall>i<length ds. j < i \<longrightarrow> \<not> js_lt (ds ! i) (ds ! j)))"

definition last_min :: "jsnum list \<Rightarrow> nat \<Rightarrow> bool" where
  "last_min ds j =
     (j < length ds \<and> js_le (ds ! j) PosInf
      \<and> (\<forall>i<j. js_le (ds ! j) (ds ! i))
      \<and> (\<forall>i<length ds. j < i \<longrightarrow> \<not> js_le (ds ! i) (ds ! j)))"

lemma scan_min_keeps:
  assumes "\<forall>i<length xs. \<not> better (fst (xs ! i)) m"
  shows "scan_min better xs m r = r"
  using assms
proof (induction xs)
  case Nil
  then show ?case by simp
next
  case (Cons a xs)
  obtain d x where a: "a = (d, x)" by (cases a)
  from Cons.prems have "\<not> better d m" using a by fastforce
  moreover from Cons.prems have "\<forall>i<length xs. \<not> better (fst (xs ! i)) m" by fastforce
  ultimately show ?case using Cons.IH a by simp
qed

lemma scan_min_pick:
  assumes "j < length xs"
    and "better (fst (xs ! j)) m"
    and "\<forall>i<j. better (fst (xs ! j)) (fst (xs ! i))"
    and "\<forall>i<length xs. j < i \<longrightarrow> \<not> better (fst (xs ! i)) (fst (xs ! j))"
  shows "scan_min better xs m r = Some (snd (xs ! j))"
  using assms
proof (induction xs arbitrary: j m r)
  case Nil
  then show ?case by simp
next
  case (Cons a xs)
  obtain d x where a: "a = (d, x)" by (cases a)
  show ?case
  proof (cases j)
    case 0
    with Cons.prems a have b: "better d m" by simp
    from Cons.prems 0 a have "\<forall>i<length xs. \<not> better (fst (xs ! i)) d" by fastforce
    then have "scan_min better xs d (Some x) = Some x"
      by (rule scan_min_keeps [where better = better and xs = xs and m = d])
    with b a 0 show ?thesis by simp
  next
    case (Suc k)
    with Cons.prems have k: "k < length xs" by simp
    have xj: "(a # xs) ! j = xs ! k" using Suc by simp
    from Cons.prems(3) Suc have bd: "better (fst (xs ! k)) d" using a by fastforce
    from Cons.prems(3) Suc have before: "\<forall>i<k. better (fst (xs ! k)) (fst (xs ! i))" by fastforce
    from Cons.prems(4) Suc have after: "\<forall>i<length xs. k < i \<longrightarrow> \<not> better (fst (xs ! i)) (fst (xs ! k))"
      by fastforce
    from Cons.prems(2) xj have bm: "better (fst (xs ! k)) m" by simp
    show ?thesis
    proof (cases "better d m")
      case True
      with Cons.IH [OF k bd before after] a xj show ?thesis by simp
    next
      case False
      with Cons.IH [OF k bm before after] a xj show ?thesis by simp
    qed
  qed
qed

lemma scan_min_first:
  assumes "first_min (map fst xs) j"
  shows "scan_min js_lt xs PosInf None = Some (snd (xs ! j))"
  using assms by (intro scan_min_pick) (auto simp: first_min_def)

lemma scan_min_last:
  assumes "last_min (map fst xs) j"
  shows "scan_min js_le xs PosInf None = Some (snd (xs ! j))"
  using assms by (intro scan_min_pick) (auto simp: last_min_def)

text \<open>
  The candidates of the two loops over a flat list, and what a layer contributes to the
  loop of \<open>closestLayer\<close>: the sub-result of a group, or the layer with its point and
  distance.  The loop over the vertices is a scan only for a receiver that has a \<open>distance\<close>
  method \<open>d\<close>, which no call in the source provides.
\<close>

fun segmentCandidates :: "host \<Rightarrow> latlng \<Rightarrow> latlng list \<Rightarrow> (jsnum \<times> closest_result) list" where
  "segmentCandidates h latlng (a # b # rest) =
     (distanceSegment h latlng a b,
      \<lparr>cr_latlng = closestOnSegment h latlng a b, cr_distance = distanceSegment h latlng a b\<rparr>)
     # segmentCandidates h latlng (b # rest)"
| "segmentCandidates h latlng _ = []"

definition vertexCandidates ::
  "(host \<Rightarrow> latlng \<Rightarrow> latlng \<Rightarrow> jsnum) \<Rightarrow> host \<Rightarrow> latlng \<Rightarrow> latlng list \<Rightarrow> (jsnum \<times> closest_result) list" where
  "vertexCandidates d h latlng qs =
     map (\<lambda>q. (d h latlng q, \<lparr>cr_latlng = q, cr_distance = d h latlng q\<rparr>)) qs"

lemma segmentLoop_scan:
  "map (newLatLng h) vs = map Inr qs \<Longrightarrow>
   segmentLoop h latlng vs m r = Inr (scan_min js_le (segmentCandidates h latlng qs) m r)"
proof (induction h latlng qs arbitrary: vs m r rule: segmentCandidates.induct)
  case (1 h latlng a b rest)
  from "1.prems" obtain va vb vrest where vs: "vs = va # vb # vrest"
    and a: "newLatLng h va = Inr a" and b: "newLatLng h vb = Inr b"
    and rest: "map (newLatLng h) vrest = map Inr rest"
    by (auto simp: map_eq_Cons_conv)
  have "map (newLatLng h) (vb # vrest) = map Inr (b # rest)" using b rest by simp
  from "1.IH" [OF this] vs a b show ?case by (simp add: Let_def)
next
  case "2_1"
  then show ?case by simp
next
  case "2_2"
  then obtain x where "vs = [x]" by (auto simp: map_eq_Cons_conv)
  then show ?case by simp
qed

lemma vertexLoop_scan:
  "map (newLatLng h) vs = map Inr qs \<Longrightarrow>
   vertexLoop (Some d) h latlng vs m r = Inr (scan_min js_lt (vertexCandidates d h latlng qs) m r)"
proof (induction vs arbitrary: qs m r)
  case Nil
  then show ?case by (simp add: vertexCandidates_def)
next
  case (Cons v vs)
  from Cons.prems obtain q qs' where qs: "qs = q # qs'" and q: "newLatLng h v = Inr q"
    and rest: "map (newLatLng h) vs = map Inr qs'"
    by (auto simp: Cons_eq_map_conv)
  from Cons.IH [OF rest] qs q show ?case
    by (simp add: vertexCandidates_def this_distance_def)
qed

lemma closest_elements_scan:
  "map (\<lambda>sub. closest None h (Value sub) latlng vertices) subs = map (\<lambda>r. Inr (Some r)) rs \<Longrightarrow>
   closest_elements h latlng vertices subs m r =
     Inr (scan_min js_lt (map (\<lambda>r. (cr_distance r, r)) rs) m r)"
proof (induction subs arbitrary: rs m r)
  case Nil
  then show ?case by simp
next
  case (Cons sub subs)
  from Cons.prems obtain x rs' where rs: "rs = x # rs'"
    and x: "closest None h (Value sub) latlng vertices = Inr (Some x)"
    and rest: "map (\<lambda>sub. closest None h (Value sub) latlng vertices) subs = map (\<lambda>r. Inr (Some r)) rs'"
    by (auto simp: Cons_eq_map_conv)
  from Cons.IH [OF rest] rs x show ?case by simp
qed

lemma closest_sublists_scan:
  "map (\<lambda>sub. closest None h (Value sub) latlng vertices) subs = map (\<lambda>r. Inr (Some r)) rs \<Longrightarrow>
   closest_sublists h latlng vertices subs m r =
     Inr (scan_min js_lt (map (\<lambda>r. (cr_distance r, r)) rs) m r)"
proof (induction subs arbitrary: rs m r)
  case Nil
  then show ?case by simp
next
  case (Cons sub subs)
  from Cons.prems obtain x rs' where rs: "rs = x # rs'"
    and x: "closest None h (Value sub) latlng vertices = Inr (Some x)"
    and rest: "map (\<lambda>sub. closest None h (Value sub) latlng vertices) subs = map (\<lambda>r. Inr (Some r)) rs'"
    by (auto simp: Cons_eq_map_conv)
  from Cons.IH [OF rest] rs x show ?case by simp
qed

definition contributes :: "receiver \<Rightarrow> host \<Rightarrow> latlng \<Rightarrow> layer \<Rightarrow> layer_result \<Rightarrow> bool" where
  "contributes this h latlng layer c =
     (case layer of
        LayerGroup _ children \<Rightarrow> closestLayer None h children latlng = Inr (Some c)
      | _ \<Rightarrow> lr_layer c = layer
             \<and> (\<forall>distance. layerCandidate this h latlng layer distance =
                               Inr (lr_latlng c, lr_distance c)))"

lemma closestLayer_loop_leaf:
  "\<not> isGroup layer \<Longrightarrow>
   closestLayer_loop this h latlng (layer # rest) mindist result distance =
     (case layerCandidate this h latlng layer distance of
        Inl e \<Rightarrow> Inl e
      | Inr (ll, distance') \<Rightarrow>
          if js_lt distance' mindist
          then closestLayer_loop this h latlng rest distance'
                 (Some \<lparr>lr_layer = layer, lr_latlng = ll, lr_distance = distance'\<rparr>) distance'
          else closestLayer_loop this h latlng rest mindist result distance')"
  by (cases layer) auto

lemma closestLayer_loop_scan:
  "list_all2 (contributes this h latlng) layers cs \<Longrightarrow>
   closestLayer_loop this h latlng layers m r distance =
     Inr (scan_min js_lt (map (\<lambda>c. (lr_distance c, c)) cs) m r)"
proof (induction layers cs arbitrary: m r distance rule: list_all2_induct)
  case Nil
  then show ?case by simp
next
  case (Cons layer layers c cs)
  show ?case
  proof (cases "isGroup layer")
    case True
    then obtain i children where "layer = LayerGroup i children" by (cases layer) auto
    with Cons show ?thesis by (simp add: contributes_def)
  next
    case False
    with Cons.hyps(1) have l: "lr_layer c = layer"
      and cand: "layerCandidate this h latlng layer distance = Inr (lr_latlng c, lr_distance c)"
      by (cases layer; simp add: contributes_def)+
    have "\<lparr>lr_layer = layer, lr_latlng = lr_latlng c, lr_distance = lr_distance c\<rparr> = c"
      using l by simp
    with Cons.IH cand show ?thesis
      by (simp add: closestLayer_loop_leaf [OF False])
  qed
qed


text \<open>
  \<open>isPolygon\<close> is the test \<open>layer instanceof leaflet.Polygon\<close>, \<open>getLatLngs\<close> the array
  the layer holds.
\<close>

fun isPolygon :: "layer \<Rightarrow> bool" where
  "isPolygon (Polygon _ _) = True"
| "isPolygon _ = False"

fun getLatLngs :: "layer \<Rightarrow> jsval list" where
  "getLatLngs (Polyline _ lls) = lls"
| "getLatLngs (Polygon _ lls) = lls"
| "getLatLngs _ = []"

lemma closest_layer:
  "hasGetLatLngs l \<Longrightarrow>
   closest this h (Layer l) latlng vertices =
     closestLatLngs this h (isPolygon l) (getLatLngs l) latlng vertices"
  by (cases l) (simp_all add: closest.simps)

lemma closest_coordinate_array:
  "\<not> isNestedArray xs \<Longrightarrow> isCoordinateArray xs = Inr True \<Longrightarrow> newPolyline h xs = Inr lls \<Longrightarrow>
   closest this h (Value (Arr xs)) latlng vertices = closestLatLngs this h False lls latlng vertices"
  by (simp add: closest.simps)

lemma closest_nested_array:
  "isNestedArray subs \<Longrightarrow>
   closest this h (Value (Arr subs)) latlng vertices = closest_elements h latlng vertices subs PosInf None"
  by (simp add: closest.simps)

lemma closestLatLngs_without_isArray:
  "\<not> hasIsArray h \<Longrightarrow> closestLatLngs this h p lls latlng vertices = Inl TypeError"
  by (cases p) (simp_all add: closestLatLngs.simps copyLatLngs_def isFlat_def addLastSegment_raises)

lemma vertexLoop_raises:
  "map (newLatLng h) vs = map Inr qs \<Longrightarrow> qs \<noteq> [] \<Longrightarrow>
   vertexLoop None h latlng vs m r = Inl TypeError"
  by (cases vs; cases qs) (simp_all add: this_distance_def)

text \<open>
  C4 fails on the code.  The comparisons are the ones the claim names, but the search over
  vertices never gets to compare: \<open>closest\<close> is only ever called as a plain function, and
  at the first vertex \<open>this.distance\<close> is a \<open>TypeError\<close>, so that no call with \<open>vertices\<close>
  set returns a vertex.  On a host without \<open>Util.isArray\<close> every search on a list of
  coordinates is a \<open>TypeError\<close>, whatever is searched for.  The rest holds on a host with
  \<open>Util.isArray\<close>: \<open>closest\<close> on a \<open>Polyline\<close> or \<open>Polygon\<close>, and on an array of
  coordinates, is the common body \<open>closestLatLngs\<close>; on a flat list the search over
  segments returns the closest point of the last segment with the least distance (\<open><=\<close>);
  over the elements of a nested array, over the sub-lists of a nested polyline and over the
  layers of \<open>closestLayer\<close>, the first candidate with the least distance wins (\<open><\<close>).
\<close>

theorem tie_breaking:
  "(hasGetLatLngs l \<longrightarrow>
      closest this h (Layer l) latlng vertices =
        closestLatLngs this h (isPolygon l) (getLatLngs l) latlng vertices)
   \<and> (\<not> isNestedArray xs \<and> isCoordinateArray xs = Inr True \<and> newPolyline h xs = Inr lls0 \<longrightarrow>
      closest this h (Value (Arr xs)) latlng vertices = closestLatLngs this h False lls0 latlng vertices)
   \<and> (\<not> hasIsArray h \<longrightarrow> closestLatLngs this h p0 lls latlng vertices = Inl TypeError)
   \<and> (copyLatLngs h p1 lls1 = Inr latlngs1 \<and> isFlat h latlngs1 = Inr True
      \<and> map (newLatLng h) latlngs1 = map Inr qs1
      \<and> last_min (map fst (segmentCandidates h latlng qs1)) j1
    \<longrightarrow> closestLatLngs this h p1 lls1 latlng False =
          Inr (Some (snd (segmentCandidates h latlng qs1 ! j1))))
   \<and> (copyLatLngs h p2 lls2 = Inr latlngs2 \<and> isFlat h latlngs2 = Inr True
      \<and> map (newLatLng h) latlngs2 = map Inr qs2 \<and> qs2 \<noteq> []
    \<longrightarrow> closestLatLngs None h p2 lls2 latlng True = Inl TypeError)
   \<and> closest None h a latlng True \<noteq> Inr (Some r)
   \<and> (isNestedArray subs3
      \<and> map (\<lambda>sub. closest None h (Value sub) latlng vertices) subs3 = map (\<lambda>r. Inr (Some r)) rs3
      \<and> first_min (map cr_distance rs3) j3
    \<longrightarrow> closest this h (Value (Arr subs3)) latlng vertices = Inr (Some (rs3 ! j3)))
   \<and> (copyLatLngs h p4 lls4 = Inr latlngs4 \<and> isFlat h latlngs4 = Inr False
      \<and> map (\<lambda>sub. closest None h (Value sub) latlng vertices) latlngs4 = map (\<lambda>r. Inr (Some r)) rs4
      \<and> first_min (map cr_distance rs4) j4
    \<longrightarrow> closestLatLngs this h p4 lls4 latlng vertices = Inr (Some (rs4 ! j4)))
   \<and> (list_all2 (contributes this h latlng) layers5 cs5 \<and> first_min (map lr_distance cs5) j5
    \<longrightarrow> closestLayer this h layers5 latlng = Inr (Some (cs5 ! j5)))"
proof (intro conjI impI; (elim conjE)?)
  assume "hasGetLatLngs l"
  then show "closest this h (Layer l) latlng vertices =
        closestLatLngs this h (isPolygon l) (getLatLngs l) latlng vertices"
    by (rule closest_layer)
next
  assume "\<not> isNestedArray xs" and "isCoordinateArray xs = Inr True" and "newPolyline h xs = Inr lls0"
  then show "closest this h (Value (Arr xs)) latlng vertices =
      closestLatLngs this h False lls0 latlng vertices"
    by (rule closest_coordinate_array)
next
  assume "\<not> hasIsArray h"
  then show "closestLatLngs this h p0 lls latlng vertices = Inl TypeError"
    by (rule closestLatLngs_without_isArray)
next
  assume "copyLatLngs h p1 lls1 = Inr latlngs1" and "isFlat h latlngs1 = Inr True"
    and "map (newLatLng h) latlngs1 = map Inr qs1"
    and "last_min (map fst (segmentCandidates h latlng qs1)) j1"
  then show "closestLatLngs this h p1 lls1 latlng False =
          Inr (Some (snd (segmentCandidates h latlng qs1 ! j1)))"
    by (simp add: closestLatLngs.simps segmentLoop_scan scan_min_last)
next
  assume "copyLatLngs h p2 lls2 = Inr latlngs2" and "isFlat h latlngs2 = Inr True"
    and "map (newLatLng h) latlngs2 = map Inr qs2" and "qs2 \<noteq> []"
  then show "closestLatLngs None h p2 lls2 latlng True = Inl TypeError"
    by (simp add: closestLatLngs.simps vertexLoop_raises)
next
  show "closest None h a latlng True \<noteq> Inr (Some r)"
    by (rule vertex_search_undefined_receiver(1)) simp_all
next
  assume n: "isNestedArray subs3"
    and m: "map (\<lambda>sub. closest None h (Value sub) latlng vertices) subs3 = map (\<lambda>r. Inr (Some r)) rs3"
    and f: "first_min (map cr_distance rs3) j3"
  from f have f': "first_min (map fst (map (\<lambda>r. (cr_distance r, r)) rs3)) j3"
    by (simp add: comp_def)
  then have "j3 < length rs3" by (simp add: first_min_def)
  with scan_min_first [OF f'] n closest_elements_scan [OF m]
  show "closest this h (Value (Arr subs3)) latlng vertices = Inr (Some (rs3 ! j3))"
    by (simp add: closest_nested_array)
next
  assume c: "copyLatLngs h p4 lls4 = Inr latlngs4" and n: "isFlat h latlngs4 = Inr False"
    and m: "map (\<lambda>sub. closest None h (Value sub) latlng vertices) latlngs4 =
          map (\<lambda>r. Inr (Some r)) rs4"
    and f: "first_min (map cr_distance rs4) j4"
  from f have f': "first_min (map fst (map (\<lambda>r. (cr_distance r, r)) rs4)) j4"
    by (simp add: comp_def)
  then have "j4 < length rs4" by (simp add: first_min_def)
  with scan_min_first [OF f'] c n closest_sublists_scan [OF m]
  show "closestLatLngs this h p4 lls4 latlng vertices = Inr (Some (rs4 ! j4))"
    by (simp add: closestLatLngs.simps)
next
  assume l: "list_all2 (contributes this h latlng) layers5 cs5"
    and f: "first_min (map lr_distance cs5) j5"
  from f have f': "first_min (map fst (map (\<lambda>c. (lr_distance c, c)) cs5)) j5"
    by (simp add: comp_def)
  then have "j5 < length cs5" by (simp add: first_min_def)
  with scan_min_first [OF f'] closestLayer_loop_scan [OF l]
  show "closestLayer this h layers5 latlng = Inr (Some (cs5 ! j5))"
    by simp
qed

text \<open>
  Examples with ties: a closed square seen from its centre (four segments at distance 1,
  five vertices at distance \<open>\<surd>2\<close>), and two parallel lines seen from half-way between them.
\<close>

definition squareVertices :: "latlng list" where
  "squareVertices = [pos 0 0, pos 2 0, pos 2 2, pos 0 2, pos 0 0]"

definition squareLine :: layer where
  "squareLine = Polyline 10 (map LatLngObj squareVertices)"

definition lowRing :: "jsval list" where
  "lowRing = [LatLngObj (pos 0 0), LatLngObj (pos 2 0)]"

definition highRing :: "jsval list" where
  "highRing = [LatLngObj (pos 0 2), LatLngObj (pos 2 2)]"

definition lowHit :: closest_result where
  "lowHit = \<lparr>cr_latlng = pos 1 0, cr_distance = Fin 1\<rparr>"

definition highHit :: closest_result where
  "highHit = \<lparr>cr_latlng = pos 1 2, cr_distance = Fin 1\<rparr>"

definition lowLine :: layer where
  "lowLine = Polyline 12 lowRing"

definition highLine :: layer where
  "highLine = Polyline 13 highRing"

lemmas tie_defs =
  squareVertices_def squareLine_def lowRing_def highRing_def lowHit_def highHit_def
  lowLine_def highLine_def

lemma square_copy:
  "copyLatLngs planeMap False (map LatLngObj squareVertices) =
     Inr (map json_copy (map LatLngObj squareVertices))
   \<and> isFlat planeMap (map json_copy (map LatLngObj squareVertices)) = Inr True
   \<and> map (newLatLng planeMap) (map json_copy (map LatLngObj squareVertices)) = map Inr squareVertices"
  by (simp add: tie_defs example_defs)

lemma square_segments:
  "map fst (segmentCandidates planeMap (pos 1 1) squareVertices) = [Fin 1, Fin 1, Fin 1, Fin 1]
   \<and> snd (segmentCandidates planeMap (pos 1 1) squareVertices ! 3) =
       \<lparr>cr_latlng = pos 0 1, cr_distance = Fin 1\<rparr>"
  by (simp add: tie_defs example_defs)

lemma last_of_four: "last_min [Fin 1, Fin 1, Fin 1, Fin 1] 3"
  by (simp add: last_min_def js_le_def nth_Cons' less_Suc_eq numeral_3_eq_3)

lemma first_of_two: "first_min [Fin 1, Fin 1] 0"
  by (simp add: first_min_def nth_Cons' less_Suc_eq)

lemma low_ring_array:
  "\<not> isNestedArray lowRing \<and> isCoordinateArray lowRing = Inr True
   \<and> newPolyline planeMap lowRing = Inr lowRing"
  by (simp add: tie_defs example_defs)

lemma rings_array:
  "isNestedArray [Arr lowRing, Arr highRing]
   \<and> map (\<lambda>sub. closest None planeMap (Value sub) (pos 1 1) False) [Arr lowRing, Arr highRing] =
       map (\<lambda>r. Inr (Some r)) [lowHit, highHit]"
  by (simp add: tie_defs example_defs)

lemma rings_copy:
  "copyLatLngs planeMap False [Arr lowRing, Arr highRing] =
     Inr (map json_copy [Arr lowRing, Arr highRing])
   \<and> isFlat planeMap (map json_copy [Arr lowRing, Arr highRing]) = Inr False
   \<and> map (\<lambda>sub. closest None planeMap (Value sub) (pos 1 1) False)
         (map json_copy [Arr lowRing, Arr highRing]) =
       map (\<lambda>r. Inr (Some r)) [lowHit, highHit]"
  by (simp add: tie_defs example_defs)

lemma lines_contribute:
  "list_all2 (contributes None planeMap (pos 1 1)) [lowLine, highLine]
     [\<lparr>lr_layer = lowLine, lr_latlng = Some (pos 1 0), lr_distance = Fin 1\<rparr>,
      \<lparr>lr_layer = highLine, lr_latlng = Some (pos 1 2), lr_distance = Fin 1\<rparr>]"
  by (simp add: contributes_def tie_defs example_defs)

theorem tie_breaking_witness:
  "hasGetLatLngs squareLine
   \<and> closest None planeMap (Layer squareLine) (pos 1 1) False =
       closestLatLngs None planeMap False (map LatLngObj squareVertices) (pos 1 1) False
   \<and> \<not> isNestedArray lowRing \<and> isCoordinateArray lowRing = Inr True
   \<and> newPolyline planeMap lowRing = Inr lowRing
   \<and> closest None planeMap (Value (Arr lowRing)) (pos 1 1) False =
       closestLatLngs None planeMap False lowRing (pos 1 1) False
   \<and> \<not> hasIsArray leaflet2Map
   \<and> closestLatLngs None leaflet2Map False (map LatLngObj squareVertices) (pos 1 1) False =
       Inl TypeError
   \<and> closest None leaflet2Map (Layer squareLine) (pos 1 1) False = Inl TypeError
   \<and> isFlat planeMap (map json_copy (map LatLngObj squareVertices)) = Inr True
   \<and> last_min (map fst (segmentCandidates planeMap (pos 1 1) squareVertices)) 3
   \<and> closestLatLngs None planeMap False (map LatLngObj squareVertices) (pos 1 1) False =
       Inr (Some \<lparr>cr_latlng = pos 0 1, cr_distance = Fin 1\<rparr>)
   \<and> squareVertices \<noteq> []
   \<and> closestLatLngs None planeMap False (map LatLngObj squareVertices) (pos 1 1) True =
       Inl TypeError
   \<and> closest None planeMap (Layer squareLine) (pos 1 1) True = Inl TypeError
   \<and> isNestedArray [Arr lowRing, Arr highRing]
   \<and> first_min (map cr_distance [lowHit, highHit]) 0
   \<and> closest None planeMap (Value (Arr [Arr lowRing, Arr highRing])) (pos 1 1) False = Inr (Some lowHit)
   \<and> isFlat planeMap (map json_copy [Arr lowRing, Arr highRing]) = Inr False
   \<and> closestLatLngs None planeMap False [Arr lowRing, Arr highRing] (pos 1 1) False = Inr (Some lowHit)
   \<and> closestLayer None planeMap [lowLine, highLine] (pos 1 1) =
       Inr (Some \<lparr>lr_layer = lowLine, lr_latlng = Some (pos 1 0), lr_distance = Fin 1\<rparr>)"
proof -
  note T = tie_breaking
    [where h = planeMap and latlng = "pos 1 1" and this = None and vertices = False
       and l = squareLine and xs = lowRing and ?lls0.0 = lowRing
       and ?p1.0 = False and ?lls1.0 = "map LatLngObj squareVertices"
       and ?latlngs1.0 = "map json_copy (map LatLngObj squareVertices)"
       and ?qs1.0 = squareVertices and ?j1.0 = 3
       and ?p2.0 = False and ?lls2.0 = "map LatLngObj squareVertices"
       and ?latlngs2.0 = "map json_copy (map LatLngObj squareVertices)"
       and ?qs2.0 = squareVertices
       and ?subs3.0 = "[Arr lowRing, Arr highRing]" and ?rs3.0 = "[lowHit, highHit]" and ?j3.0 = 0
       and ?p4.0 = False and ?lls4.0 = "[Arr lowRing, Arr highRing]"
       and ?latlngs4.0 = "map json_copy [Arr lowRing, Arr highRing]"
       and ?rs4.0 = "[lowHit, highHit]" and ?j4.0 = 0
       and ?layers5.0 = "[lowLine, highLine]"
       and ?cs5.0 = "[\<lparr>lr_layer = lowLine, lr_latlng = Some (pos 1 0), lr_distance = Fin 1\<rparr>,
                      \<lparr>lr_layer = highLine, lr_latlng = Some (pos 1 2), lr_distance = Fin 1\<rparr>]"
       and ?j5.0 = 0]
  note T2 = tie_breaking
    [where h = leaflet2Map and latlng = "pos 1 1" and this = None and vertices = False
       and l = squareLine and ?p0.0 = False and lls = "map LatLngObj squareVertices"]
  have g: "hasGetLatLngs squareLine" "isPolygon squareLine = False"
    "getLatLngs squareLine = map LatLngObj squareVertices"
    by (simp_all add: squareLine_def)
  have n: "\<not> hasIsArray leaflet2Map" "squareVertices \<noteq> []"
    by (simp_all add: leaflet2Map_def squareVertices_def)
  from T2 g n
  have 2: "closestLatLngs None leaflet2Map False (map LatLngObj squareVertices) (pos 1 1) False =
             Inl TypeError"
    "closest None leaflet2Map (Layer squareLine) (pos 1 1) False = Inl TypeError"
    by simp_all
  have l3: "last_min (map fst (segmentCandidates planeMap (pos 1 1) squareVertices)) 3"
    using square_segments last_of_four by simp
  from T square_copy n(2)
  have v: "closestLatLngs None planeMap False (map LatLngObj squareVertices) (pos 1 1) True =
             Inl TypeError"
    by simp
  have v': "closest None planeMap (Layer squareLine) (pos 1 1) True = Inl TypeError"
    using v by (simp add: squareLine_def closest.simps)
  have f2: "first_min (map cr_distance [lowHit, highHit]) 0"
    using first_of_two by (simp add: lowHit_def highHit_def)
  have f5: "first_min (map lr_distance
               [\<lparr>lr_layer = lowLine, lr_latlng = Some (pos 1 0), lr_distance = Fin 1\<rparr>,
                \<lparr>lr_layer = highLine, lr_latlng = Some (pos 1 2), lr_distance = Fin 1\<rparr>]) 0"
    using first_of_two by simp
  from T g square_copy l3 f2 f5 low_ring_array rings_array rings_copy lines_contribute
    square_segments n 2 v v'
  show ?thesis by simp
qed


section \<open>Snapping to vertices\<close>

text \<open>
  Every result of \<open>closestLayer\<close> carries a point: a \<open>distance\<close> left over from the layer
  before is never below the running minimum.
\<close>

lemma js_lt_irrefl: "\<not> js_lt a a"
  by (cases a) simp_all

lemma js_lt_trans: "js_lt a b \<Longrightarrow> js_lt b c \<Longrightarrow> js_lt a c"
  by (cases a; cases b; cases c) simp_all

lemma layerCandidate_null:
  "layerCandidate this h latlng layer distance = Inr (None, d) \<Longrightarrow> d = distance"
  by (auto simp: layerCandidate_def split: layer.splits sum.splits option.splits)

lemma closestLayer_latlng_aux:
  "closestLayer this h layers latlng = Inr (Some r) \<Longrightarrow> lr_latlng r \<noteq> None"
  "closestLayer_loop this h latlng layers mindist result distance = Inr (Some r) \<Longrightarrow>
     \<not> js_lt distance mindist \<Longrightarrow> (\<forall>r'. result = Some r' \<longrightarrow> lr_latlng r' \<noteq> None) \<Longrightarrow>
     lr_latlng r \<noteq> None"
proof (induction this h layers latlng and this h latlng layers mindist result distance
         arbitrary: r and r rule: closestLayer_closestLayer_loop.induct, goal_cases)
  case (1 this h layers latlng r)
  then show ?case by (simp add: js_lt_irrefl)
next
  case (2 this h latlng mindist result distance r)
  then show ?case by simp
next
  case (3 this h latlng i children rest mindist result distance r)
  from 3(4) obtain sub where sub: "closestLayer None h children latlng = Inr (Some sub)"
    by (auto split: sum.splits option.splits)
  from 3(1) [OF sub] have sl: "lr_latlng sub \<noteq> None" .
  show ?case
  proof (cases "js_lt (lr_distance sub) mindist")
    case True
    with 3(5) have "\<not> js_lt distance (lr_distance sub)"
      using js_lt_trans by blast
    with 3(2) [OF sub refl True] 3(4) sub True sl show ?thesis by simp
  next
    case False
    with 3(3) [OF sub refl False] 3(4,5,6) sub show ?thesis by simp
  qed
next
  case (4 this h latlng v va vb rest mindist result distance r)
  from 4(3) obtain ll d' where
    cand: "layerCandidate this h latlng (Circle v va vb) distance = Inr (ll, d')"
    by (auto split: sum.splits)
  show ?case
  proof (cases "js_lt d' mindist")
    case True
    have "ll \<noteq> None"
    proof
      assume "ll = None"
      with cand have "d' = distance" using layerCandidate_null by blast
      with True 4(4) show False by simp
    qed
    with 4(1) [OF cand refl True] 4(3) cand True show ?thesis
      by (simp add: js_lt_irrefl)
  next
    case False
    with 4(2) [OF cand refl False] 4(3,4,5) cand show ?thesis by simp
  qed
next
  case (5 this h latlng v va rest mindist result distance r)
  from 5(3) obtain ll d' where
    cand: "layerCandidate this h latlng (Marker v va) distance = Inr (ll, d')"
    by (auto split: sum.splits)
  show ?case
  proof (cases "js_lt d' mindist")
    case True
    have "ll \<noteq> None"
    proof
      assume "ll = None"
      with cand have "d' = distance" using layerCandidate_null by blast
      with True 5(4) show False by simp
    qed
    with 5(1) [OF cand refl True] 5(3) cand True show ?thesis
      by (simp add: js_lt_irrefl)
  next
    case False
    with 5(2) [OF cand refl False] 5(3,4,5) cand show ?thesis by simp
  qed
next
  case (6 this h latlng v va rest mindist result distance r)
  from 6(3) obtain ll d' where
    cand: "layerCandidate this h latlng (Polyline v va) distance = Inr (ll, d')"
    by (auto split: sum.splits)
  show ?case
  proof (cases "js_lt d' mindist")
    case True
    have "ll \<noteq> None"
    proof
      assume "ll = None"
      with cand have "d' = distance" using layerCandidate_null by blast
      with True 6(4) show False by simp
    qed
    with 6(1) [OF cand refl True] 6(3) cand True show ?thesis
      by (simp add: js_lt_irrefl)
  next
    case False
    with 6(2) [OF cand refl False] 6(3,4,5) cand show ?thesis by simp
  qed
next
  case (7 this h latlng v va rest mindist result distance r)
  from 7(3) obtain ll d' where
    cand: "layerCandidate this h latlng (Polygon v va) distance = Inr (ll, d')"
    by (auto split: sum.splits)
  show ?case
  proof (cases "js_lt d' mindist")
    case True
    have "ll \<noteq> None"
    proof
      assume "ll = None"
      with cand have "d' = distance" using layerCandidate_null by blast
      with True 7(4) show False by simp
    qed
    with 7(1) [OF cand refl True] 7(3) cand True show ?thesis
      by (simp add: js_lt_irrefl)
  next
    case False
    with 7(2) [OF cand refl False] 7(3,4,5) cand show ?thesis by simp
  qed
next
  case (8 this h latlng v rest mindist result distance r)
  from 8(3) obtain ll d' where
    cand: "layerCandidate this h latlng (OtherLayer v) distance = Inr (ll, d')"
    by (auto split: sum.splits)
  show ?case
  proof (cases "js_lt d' mindist")
    case True
    have "ll \<noteq> None"
    proof
      assume "ll = None"
      with cand have "d' = distance" using layerCandidate_null by blast
      with True 8(4) show False by simp
    qed
    with 8(1) [OF cand refl True] 8(3) cand True show ?thesis
      by (simp add: js_lt_irrefl)
  next
    case False
    with 8(2) [OF cand refl False] 8(3,4,5) cand show ?thesis by simp
  qed
qed

lemma closestLayer_latlng:
  "closestLayer this h layers latlng = Inr (Some r) \<Longrightarrow> \<exists>found. lr_latlng r = Some found"
  using closestLayer_latlng_aux(1) by blast

lemma closestLayerSnap_absent:
  "closestLayerSnap this h layers latlng tolerance withVertices = Inr None \<longleftrightarrow>
     closestLayer None h layers latlng = Inr None
     \<or> (\<exists>result. closestLayer None h layers latlng = Inr (Some result)
                  \<and> js_gt (lr_distance result) tolerance)"
  by (auto simp: closestLayerSnap_def split: sum.splits option.splits if_splits)

lemma closestLayerSnap_unrefined:
  assumes "closestLayer None h layers latlng = Inr (Some result)"
    and "\<not> js_gt (lr_distance result) tolerance"
    and "\<not> (withVertices \<and> hasGetLatLngs (lr_layer result))"
  shows "closestLayerSnap this h layers latlng tolerance withVertices = Inr (Some result)"
  using assms by (auto simp: closestLayerSnap_def)

lemma closestLayerSnap_refinement_raises:
  assumes "closestLayer None h layers latlng = Inr (Some result)"
    and "\<not> js_gt (lr_distance result) tolerance"
    and "withVertices" and "hasGetLatLngs (lr_layer result)"
  shows "\<exists>e. closestLayerSnap this h layers latlng tolerance withVertices = Inl e"
proof -
  from closestLayer_latlng [OF assms(1)] obtain found where f: "lr_latlng result = Some found"
    by blast
  have "\<And>r. closest None h (Layer (lr_layer result)) found True \<noteq> Inr (Some r)"
    by (rule vertex_search_undefined_receiver(1)) simp_all
  then have "\<exists>e. (case closest None h (Layer (lr_layer result)) found True of
                    Inl e \<Rightarrow> Inl e
                  | Inr None \<Rightarrow> Inl TypeError
                  | Inr (Some closestResult) \<Rightarrow> X closestResult) = Inl e" for X :: "closest_result \<Rightarrow> error + layer_result option"
    by (cases "closest None h (Layer (lr_layer result)) found True") (auto split: option.splits)
  with assms f show ?thesis by (simp add: closestLayerSnap_def)
qed

text \<open>
  C3.  \<open>closestLayerSnap\<close> returns \<open>null\<close> exactly when \<open>closestLayer\<close> returns \<open>null\<close> or a
  result whose distance is greater than the tolerance, so that a distance equal to the
  tolerance is a hit.  A hit is returned as \<open>closestLayer\<close> found it when \<open>withVertices\<close> is
  not set or the layer has no \<open>getLatLngs\<close>.  When \<open>withVertices\<close> is set and the layer has
  \<open>getLatLngs\<close>, the call raises an error, whatever the receiver of \<open>closestLayerSnap\<close>
  itself: \<open>closest\<close> is called as a plain function, so the vertex search runs with the
  receiver \<open>undefined\<close>.  The point is never replaced by a vertex.
\<close>

theorem closestLayerSnap_refinement:
  "(closestLayerSnap this h layers latlng tolerance withVertices = Inr None \<longleftrightarrow>
      closestLayer None h layers latlng = Inr None
      \<or> (\<exists>r. closestLayer None h layers latlng = Inr (Some r) \<and> js_gt (lr_distance r) tolerance))
   \<and> (closestLayer None h layers latlng = Inr (Some result)
        \<and> \<not> js_gt (lr_distance result) tolerance
        \<and> \<not> (withVertices \<and> hasGetLatLngs (lr_layer result))
      \<longrightarrow> closestLayerSnap this h layers latlng tolerance withVertices = Inr (Some result))
   \<and> (closestLayer None h layers latlng = Inr (Some result)
        \<and> \<not> js_gt (lr_distance result) tolerance
        \<and> withVertices \<and> hasGetLatLngs (lr_layer result)
      \<longrightarrow> (\<exists>e. closestLayerSnap this h layers latlng tolerance withVertices = Inl e))"
  using closestLayerSnap_absent [of this h layers latlng tolerance withVertices]
    closestLayerSnap_unrefined [of h layers latlng result tolerance withVertices this]
    closestLayerSnap_refinement_raises [of h layers latlng result tolerance withVertices this]
  by blast

definition hitA :: layer_result where
  "hitA = \<lparr>lr_layer = lineA, lr_latlng = Some (pos 5 0), lr_distance = Fin 1\<rparr>"

lemma closestLayer_lineA: "closestLayer None planeMap [lineA] (pos 5 1) = Inr (Some hitA)"
  by (simp add: hitA_def example_defs)

theorem closestLayerSnap_refinement_witness:
  "closestLayer None planeMap [lineA] (pos 5 1) = Inr (Some hitA)
   \<and> \<not> js_gt (lr_distance hitA) (Fin 1)
   \<and> hasGetLatLngs (lr_layer hitA)
   \<and> closestLayerSnap None planeMap [lineA] (pos 5 1) (Fin 1) False = Inr (Some hitA)
   \<and> closestLayerSnap (Some planarDistance) planeMap [lineA] (pos 5 1) (Fin 1) False = Inr (Some hitA)
   \<and> closestLayerSnap None planeMap [lineA] (pos 5 1) (Fin (1/2)) False = Inr None
   \<and> closestLayerSnap None planeMap [lineA] (pos 5 1) (Fin 1) True = Inl TypeError
   \<and> closestLayerSnap (Some planarDistance) planeMap [lineA] (pos 5 1) (Fin 1) True = Inl TypeError
   \<and> closestLayerSnap (Some planarDistance) planeMap [lineA] (pos 5 1) PosInf True = Inl TypeError"
proof -
  have a: "\<not> js_gt (lr_distance hitA) (Fin 1)" "hasGetLatLngs (lr_layer hitA)"
    "js_gt (lr_distance hitA) (Fin (1/2))"
    by (simp_all add: hitA_def lineA_def js_gt_def)
  note T = closestLayerSnap_refinement [where h = planeMap and layers = "[lineA]"
             and latlng = "pos 5 1" and result = hitA]
  from T [where this = None and tolerance = "Fin 1" and withVertices = False]
    closestLayer_lineA a
  have 1: "closestLayerSnap None planeMap [lineA] (pos 5 1) (Fin 1) False = Inr (Some hitA)"
    by simp
  from T [where this = "Some planarDistance" and tolerance = "Fin 1" and withVertices = False]
    closestLayer_lineA a
  have 2: "closestLayerSnap (Some planarDistance) planeMap [lineA] (pos 5 1) (Fin 1) False =
           Inr (Some hitA)"
    by simp
  from T [where this = None and tolerance = "Fin (1/2)" and withVertices = False]
    closestLayer_lineA a
  have 3: "closestLayerSnap None planeMap [lineA] (pos 5 1) (Fin (1/2)) False = Inr None"
    by simp
  have 4: "closestLayerSnap this planeMap [lineA] (pos 5 1) tolerance True = Inl TypeError"
    if "\<not> js_gt (Fin 1) tolerance" for this tolerance
    using that closestLayer_lineA
    by (simp add: closestLayerSnap_def hitA_def lineA_def closest.simps closestLatLngs.simps
          copyLatLngs_def isFlat_def index0_def planeMap_def this_distance_def pos_def)
  have 5: "\<not> js_gt (Fin 1) (Fin 1)" "\<not> js_gt (Fin 1) PosInf" by (simp_all add: js_gt_def)
  from closestLayer_lineA a 1 2 3 4 [OF 5(1)] 4 [OF 5(2)] show ?thesis by simp
qed


section \<open>The copy of the coordinates on a store\<close>

text \<open>
  The pure model above cannot tell whether \<open>closest\<close> writes to the arrays of the layer it
  is given.  This section models the statements that could, lines 128 to 141, on a store of
  arrays: a value is atomic or the address of an array, \<open>push\<close> changes the array at an
  address, and every other holder of that address sees the change.  An address is an index
  into the store; allocation appends.
\<close>

datatype hval =
    HUndefined
  | HNull
  | HNum jsnum
  | HStr string
  | HObj "jsnum option" "jsnum option"
  | HLatLng latlng
  | HRef nat

type_synonym store = "hval list list"

definition alloc :: "store \<Rightarrow> hval list \<Rightarrow> store \<times> nat" where
  "alloc st xs = (st @ [xs], length st)"

text \<open>
  The tree of values below a value, read with fuel: \<open>None\<close> when the fuel does not reach
  the leaves, as on a cyclic structure, or when an address is not allocated.
\<close>

fun read_tree :: "nat \<Rightarrow> store \<Rightarrow> hval \<Rightarrow> jsval option" where
  "read_tree fuel st HUndefined = Some Undefined"
| "read_tree fuel st HNull = Some Null"
| "read_tree fuel st (HNum n) = Some (Num n)"
| "read_tree fuel st (HStr s) = Some (Str s)"
| "read_tree fuel st (HObj la lo) = Some (Obj la lo)"
| "read_tree fuel st (HLatLng ll) = Some (LatLngObj ll)"
| "read_tree 0 st (HRef a) = None"
| "read_tree (Suc fuel) st (HRef a) =
     (if a < length st then map_option Arr (those (map (read_tree fuel st) (st ! a))) else None)"

text \<open>\<open>JSON.parse\<close> allocates an array for every array of the text it reads.\<close>

fun build :: "store \<Rightarrow> jsval \<Rightarrow> store \<times> hval"
  and build_list :: "store \<Rightarrow> jsval list \<Rightarrow> store \<times> hval list" where
  "build st Undefined = (st, HUndefined)"
| "build st Null = (st, HNull)"
| "build st (Num n) = (st, HNum n)"
| "build st (Str s) = (st, HStr s)"
| "build st (Obj la lo) = (st, HObj la lo)"
| "build st (LatLngObj ll) = (st, HLatLng ll)"
| "build st (Arr ts) = (case build_list st ts of (st', vs) \<Rightarrow> (st' @ [vs], HRef (length st')))"
| "build_list st [] = (st, [])"
| "build_list st (t # ts) =
     (case build st t of (st1, v) \<Rightarrow>
        (case build_list st1 ts of (st2, vs) \<Rightarrow> (st2, v # vs)))"

text \<open>\<open>isFlat\<close> and \<open>addLastSegment\<close> of the source, on the store.\<close>

definition index0_store :: "hval list \<Rightarrow> hval" where
  "index0_store xs = (case xs of [] \<Rightarrow> HUndefined | x # _ \<Rightarrow> x)"

fun typeof_store :: "hval \<Rightarrow> string" where
  "typeof_store HUndefined = ''undefined''"
| "typeof_store (HNum _) = ''number''"
| "typeof_store (HStr _) = ''string''"
| "typeof_store _ = ''object''"

definition isFlat_store :: "host \<Rightarrow> store \<Rightarrow> hval list \<Rightarrow> error + bool" where
  "isFlat_store h st latlngs =
     (if \<not> hasIsArray h then Inl TypeError
      else Inr (case index0_store latlngs of
                  HRef b \<Rightarrow> typeof_store (index0_store (st ! b)) \<noteq> ''object''
                            \<and> typeof_store (index0_store (st ! b)) \<noteq> ''undefined''
                | _ \<Rightarrow> True))"

text \<open>
  The result of \<open>addLastSegment\<close> on the store is the store afterwards, together with the
  exception when one was raised; \<open>None\<close> is for the fuel running out.
\<close>

fun addLastSegment_store :: "host \<Rightarrow> nat \<Rightarrow> store \<Rightarrow> hval \<Rightarrow> (store \<times> error option) option"
  and addLastSegment_each :: "host \<Rightarrow> nat \<Rightarrow> store \<Rightarrow> hval list \<Rightarrow> (store \<times> error option) option"
where
  "addLastSegment_store h 0 st v = None"
| "addLastSegment_store h (Suc fuel) st v =
     (case v of
        HRef a \<Rightarrow>
          (case isFlat_store h st (st ! a) of
             Inl e \<Rightarrow> Some (st, Some e)
           | Inr True \<Rightarrow> Some (st[a := st ! a @ [index0_store (st ! a)]], None)
           | Inr False \<Rightarrow> addLastSegment_each h fuel st (st ! a))
      | _ \<Rightarrow> Some (st, Some TypeError))"
| "addLastSegment_each h fuel st [] = Some (st, None)"
| "addLastSegment_each h fuel st (v # rest) =
     (case addLastSegment_store h fuel st v of
        None \<Rightarrow> None
      | Some (st', Some e) \<Rightarrow> Some (st', Some e)
      | Some (st', None) \<Rightarrow> addLastSegment_each h fuel st' rest)"

text \<open>
  Lines 128 to 141: \<open>layer.getLatLngs()\<close> is the array at address \<open>a\<close>; \<open>slice(0)\<close>
  allocates a copy of it that shares the sub-arrays; \<open>JSON.stringify\<close> reads the tree below
  the copy and \<open>JSON.parse\<close> builds it anew; \<open>addLastSegment\<close> then pushes onto the arrays
  of the new tree.  The result is the store afterwards, with the value of \<open>latlngs\<close> or the
  exception that was raised.
\<close>

definition copy_store ::
  "host \<Rightarrow> nat \<Rightarrow> store \<Rightarrow> nat \<Rightarrow> bool \<Rightarrow> (store \<times> (error + hval)) option" where
  "copy_store h fuel st a polygon =
     (case alloc st (st ! a) of (st1, a1) \<Rightarrow>
        (case read_tree fuel st1 (HRef a1) of
           None \<Rightarrow> None
         | Some t \<Rightarrow>
             (case build st1 (json_copy t) of (st2, latlngs) \<Rightarrow>
                if polygon then
                  (case addLastSegment_store h fuel st2 latlngs of
                     None \<Rightarrow> None
                   | Some (st3, Some e) \<Rightarrow> Some (st3, Inl e)
                   | Some (st3, None) \<Rightarrow> Some (st3, Inr latlngs))
                else Some (st2, Inr latlngs))))"

text \<open>
  \<open>extends st st'\<close>: every array of \<open>st\<close> is in \<open>st'\<close> at its address, unchanged.  The other
  two predicates say that the addresses held by an array, or by all arrays from address
  \<open>n\<close> on, are allocated and not below \<open>n\<close>.
\<close>

definition refs_within :: "nat \<Rightarrow> store \<Rightarrow> hval list \<Rightarrow> bool" where
  "refs_within n st xs = (\<forall>c. HRef c \<in> set xs \<longrightarrow> n \<le> c \<and> c < length st)"

definition closed_from :: "nat \<Rightarrow> store \<Rightarrow> bool" where
  "closed_from n st = (\<forall>b. n \<le> b \<and> b < length st \<longrightarrow> refs_within n st (st ! b))"

lemma refs_within_mono:
  "refs_within n st xs \<Longrightarrow> m \<le> n \<Longrightarrow> length st \<le> length st' \<Longrightarrow> refs_within m st' xs"
  by (fastforce simp: refs_within_def)

lemma refs_within_Cons:
  "refs_within n st (x # xs) \<longleftrightarrow> refs_within n st [x] \<and> refs_within n st xs"
  by (auto simp: refs_within_def)

definition extends :: "store \<Rightarrow> store \<Rightarrow> bool" where
  "extends st st' = (length st \<le> length st' \<and> (\<forall>b < length st. st' ! b = st ! b))"

lemma extends_refl: "extends st st"
  by (simp add: extends_def)

lemma extends_trans: "extends st st1 \<Longrightarrow> extends st1 st2 \<Longrightarrow> extends st st2"
  by (simp add: extends_def)

lemma extends_append: "extends st (st @ [xs])"
  by (simp add: extends_def nth_append)

lemma build_frame:
  "build st t = (st', v) \<Longrightarrow>
     extends st st' \<and> closed_from (length st) st' \<and> refs_within (length st) st' [v]"
  "build_list st ts = (st', vs) \<Longrightarrow>
     extends st st' \<and> closed_from (length st) st' \<and> refs_within (length st) st' vs"
proof (induction st t and st ts arbitrary: st' v and st' vs rule: build_build_list.induct)
  case (7 st ts)
  obtain st1 vs where b: "build_list st ts = (st1, vs)" by (cases "build_list st ts")
  from "7.IH" [OF b] have e: "extends st st1" and f: "closed_from (length st) st1"
    and r: "refs_within (length st) st1 vs" by simp_all
  from "7.prems" b have st': "st' = st1 @ [vs]" and v: "v = HRef (length st1)" by simp_all
  have len: "length st \<le> length st1" using e by (simp add: extends_def)
  have 1: "extends st st'"
    unfolding st' using e extends_append by (rule extends_trans)
  have 2: "closed_from (length st) st'"
    unfolding closed_from_def
  proof (intro allI impI)
    fix b assume b: "length st \<le> b \<and> b < length st'"
    show "refs_within (length st) st' (st' ! b)"
    proof (cases "b < length st1")
      case True
      with f b have "refs_within (length st) st1 (st1 ! b)" by (simp add: closed_from_def)
      then have "refs_within (length st) st' (st1 ! b)"
        by (rule refs_within_mono) (simp_all add: st')
      with True show ?thesis by (simp add: st' nth_append)
    next
      case False
      with b have "st' ! b = vs" by (simp add: st' nth_append)
      moreover from r have "refs_within (length st) st' vs"
        by (rule refs_within_mono) (simp_all add: st')
      ultimately show ?thesis by simp
    qed
  qed
  have 3: "refs_within (length st) st' [v]"
    using len by (simp add: refs_within_def st' v)
  from 1 2 3 show ?case by simp
next
  case (9 st t ts)
  obtain st1 v1 where b1: "build st t = (st1, v1)" by (cases "build st t")
  obtain st2 vs2 where b2: "build_list st1 ts = (st2, vs2)" by (cases "build_list st1 ts")
  from "9.IH"(1) [OF b1] have e1: "extends st st1" and f1: "closed_from (length st) st1"
    and r1: "refs_within (length st) st1 [v1]" by simp_all
  from "9.IH"(2) [OF b1 [symmetric] b2] have e2: "extends st1 st2"
    and f2: "closed_from (length st1) st2" and r2: "refs_within (length st1) st2 vs2" by simp_all
  from "9.prems" b1 b2 have st': "st' = st2" and vs: "vs = v1 # vs2" by simp_all
  have l1: "length st \<le> length st1" using e1 by (simp add: extends_def)
  have l2: "length st1 \<le> length st2" using e2 by (simp add: extends_def)
  have 1: "extends st st2" using e1 e2 by (rule extends_trans)
  have 2: "closed_from (length st) st2"
    unfolding closed_from_def
  proof (intro allI impI)
    fix b assume b: "length st \<le> b \<and> b < length st2"
    show "refs_within (length st) st2 (st2 ! b)"
    proof (cases "b < length st1")
      case True
      with f1 b have "refs_within (length st) st1 (st1 ! b)" by (simp add: closed_from_def)
      then have "refs_within (length st) st2 (st1 ! b)"
        using le_refl l2 by (rule refs_within_mono)
      moreover from e2 True have "st2 ! b = st1 ! b" by (simp add: extends_def)
      ultimately show ?thesis by simp
    next
      case False
      with f2 b have "refs_within (length st1) st2 (st2 ! b)" by (simp add: closed_from_def)
      then show ?thesis using l1 le_refl by (rule refs_within_mono)
    qed
  qed
  have "refs_within (length st) st2 [v1]"
    using r1 le_refl l2 by (rule refs_within_mono)
  moreover have "refs_within (length st) st2 vs2"
    using r2 l1 le_refl by (rule refs_within_mono)
  ultimately have 3: "refs_within (length st) st2 (v1 # vs2)"
    using refs_within_Cons by blast
  from 1 2 3 show ?case by (simp add: st' vs)
qed (simp_all add: refs_within_def extends_refl closed_from_def)


lemma refs_within_index0:
  "refs_within n st xs \<Longrightarrow> refs_within n st (xs @ [index0_store xs])"
  by (cases xs) (auto simp: refs_within_def index0_store_def)

lemma refs_within_length:
  "refs_within n st xs \<Longrightarrow> length st' = length st \<Longrightarrow> refs_within n st' xs"
  by (simp add: refs_within_def)

lemma addLastSegment_frame:
  "addLastSegment_store h fuel st v = Some (st', r) \<Longrightarrow> closed_from n st \<Longrightarrow>
     refs_within n st [v] \<Longrightarrow>
     length st' = length st \<and> (\<forall>b<n. st' ! b = st ! b) \<and> closed_from n st'"
  "addLastSegment_each h fuel st vs = Some (st', r) \<Longrightarrow> closed_from n st \<Longrightarrow>
     refs_within n st vs \<Longrightarrow>
     length st' = length st \<and> (\<forall>b<n. st' ! b = st ! b) \<and> closed_from n st'"
proof (induction h fuel st v and h fuel st vs arbitrary: st' r and st' r
         rule: addLastSegment_store_addLastSegment_each.induct)
  case (1 h st v)
  then show ?case by simp
next
  case (2 h fuel st v)
  show ?case
  proof (cases "\<exists>a. v = HRef a")
    case False
    with "2.prems"(1) have "st' = st" by (cases v) auto
    with "2.prems"(2) show ?thesis by simp
  next
    case True
    then obtain a where v: "v = HRef a" by blast
    with "2.prems"(3) have a: "n \<le> a" "a < length st" by (simp_all add: refs_within_def)
    with "2.prems"(2) have ra: "refs_within n st (st ! a)" by (simp add: closed_from_def)
    show ?thesis
    proof (cases "isFlat_store h st (st ! a)")
      case (Inl e)
      with "2.prems"(1) v have "st' = st" by simp
      with "2.prems"(2) show ?thesis by simp
    next
      case (Inr fl)
      show ?thesis
      proof (cases fl)
        case True
        with "2.prems"(1) v Inr have st': "st' = st[a := st ! a @ [index0_store (st ! a)]]" by simp
        have "closed_from n st'"
          unfolding closed_from_def
        proof (intro allI impI)
          fix b assume b: "n \<le> b \<and> b < length st'"
          show "refs_within n st' (st' ! b)"
          proof (cases "b = a")
            case True
            with a st' have "st' ! b = st ! a @ [index0_store (st ! a)]" by simp
            moreover have "refs_within n st' (st ! a @ [index0_store (st ! a)])"
              using refs_within_index0 [OF ra] by (rule refs_within_length) (simp add: st')
            ultimately show ?thesis by simp
          next
            case False
            with b st' have "st' ! b = st ! b" by simp
            moreover from "2.prems"(2) b st' have "refs_within n st (st ! b)"
              by (simp add: closed_from_def)
            then have "refs_within n st' (st ! b)" by (rule refs_within_length) (simp add: st')
            ultimately show ?thesis by simp
          qed
        qed
        with a st' show ?thesis by simp
      next
        case False
        with "2.prems"(1) v Inr have "addLastSegment_each h fuel st (st ! a) = Some (st', r)" by simp
        moreover from False have "fl = False" by simp
        ultimately show ?thesis using "2.IH" [OF v Inr _ _ "2.prems"(2) ra] by blast
      qed
    qed
  qed
next
  case (3 h fuel st)
  then show ?case by simp
next
  case (4 h fuel st v rest)
  from "4.prems"(1) obtain st1 r1 where s1: "addLastSegment_store h fuel st v = Some (st1, r1)"
    by (auto split: option.splits)
  from "4.prems"(3) have rv: "refs_within n st [v]" and rr: "refs_within n st rest"
    using refs_within_Cons by blast+
  from "4.IH"(1) [OF s1 "4.prems"(2) rv] have p1: "length st1 = length st"
    "\<forall>b<n. st1 ! b = st ! b" "closed_from n st1" by simp_all
  show ?case
  proof (cases r1)
    case (Some e)
    with "4.prems"(1) s1 have "st' = st1" by simp
    with p1 show ?thesis by simp
  next
    case None
    with "4.prems"(1) s1 have r: "addLastSegment_each h fuel st1 rest = Some (st', r)" by simp
    from rr p1(1) have "refs_within n st1 rest" by (rule refs_within_length)
    from "4.IH"(2) [OF s1 refl None r p1(3) this] p1 show ?thesis by simp
  qed
qed

lemma those_eq_Some: "those os = Some ys \<longleftrightarrow> os = map Some ys"
proof (induction os arbitrary: ys)
  case Nil
  then show ?case by auto
next
  case (Cons a os)
  then show ?case by (cases a) (auto split: option.splits)
qed

lemma read_tree_extends:
  "extends st st' \<Longrightarrow> read_tree n st v = Some t \<Longrightarrow> read_tree n st' v = Some t"
proof (induction n st v arbitrary: t rule: read_tree.induct)
  case (8 fuel st a)
  from "8.prems"(2) have a: "a < length st" by (simp split: if_splits)
  with "8.prems"(1) have eq: "st' ! a = st ! a" and a': "a < length st'"
    by (simp_all add: extends_def)
  from "8.prems"(2) a obtain ts where ts: "map (read_tree fuel st) (st ! a) = map Some ts"
    and t: "t = Arr ts" by (auto simp: those_eq_Some)
  have "map (read_tree fuel st') (st ! a) = map (read_tree fuel st) (st ! a)"
  proof (rule map_cong [OF refl])
    fix x assume x: "x \<in> set (st ! a)"
    then have "read_tree fuel st x \<in> set (map Some ts)" using ts by (metis image_eqI list.set_map)
    then obtain tx where "read_tree fuel st x = Some tx" by auto
    with "8.IH" [OF a x "8.prems"(1)] show "read_tree fuel st' x = read_tree fuel st x" by simp
  qed
  with ts t a' eq show ?case by (simp add: those_eq_Some)
qed simp_all

lemma read_tree_depth: "read_tree n st v = Some t \<Longrightarrow> depth t \<le> n"
proof (induction n st v arbitrary: t rule: read_tree.induct)
  case (8 fuel st a)
  from "8.prems" have a: "a < length st" by (simp split: if_splits)
  with "8.prems" obtain ts where ts: "map (read_tree fuel st) (st ! a) = map Some ts"
    and t: "t = Arr ts" by (auto simp: those_eq_Some)
  have "depth x \<le> fuel" if "x \<in> set ts" for x
  proof -
    from that obtain i where i: "i < length ts" "ts ! i = x" by (auto simp: in_set_conv_nth)
    from ts have l: "length (st ! a) = length ts" by (metis length_map)
    with i ts have "read_tree fuel st (st ! a ! i) = Some x" by (metis nth_map)
    moreover from i l have "st ! a ! i \<in> set (st ! a)" by simp
    ultimately show ?thesis using "8.IH" [OF a] by blast
  qed
  then have "Max (insert 0 (depth ` set ts)) \<le> fuel" by auto
  with t show ?case by simp
qed auto

text \<open>
  \<open>laid lo st v t\<close>: the value \<open>v\<close> stands for the tree \<open>t\<close> in the store, laid out from
  address \<open>lo\<close> the way \<open>build\<close> does it, each array after the arrays of its elements.
  \<open>arrays t\<close> is the number of addresses the tree takes.
\<close>

fun arrays :: "jsval \<Rightarrow> nat" where
  "arrays (Arr ts) = Suc (sum_list (map arrays ts))"
| "arrays _ = 0"

fun laid :: "nat \<Rightarrow> store \<Rightarrow> hval \<Rightarrow> jsval \<Rightarrow> bool"
  and laid_list :: "nat \<Rightarrow> store \<Rightarrow> hval list \<Rightarrow> jsval list \<Rightarrow> bool" where
  "laid lo st v Undefined = (v = HUndefined)"
| "laid lo st v Null = (v = HNull)"
| "laid lo st v (Num n) = (v = HNum n)"
| "laid lo st v (Str s) = (v = HStr s)"
| "laid lo st v (Obj la lo') = (v = HObj la lo')"
| "laid lo st v (LatLngObj ll) = (v = HLatLng ll)"
| "laid lo st v (Arr ts) =
     (v = HRef (lo + sum_list (map arrays ts)) \<and> lo + sum_list (map arrays ts) < length st
      \<and> laid_list lo st (st ! (lo + sum_list (map arrays ts))) ts)"
| "laid_list lo st [] [] = True"
| "laid_list lo st (v # vs) (t # ts) = (laid lo st v t \<and> laid_list (lo + arrays t) st vs ts)"
| "laid_list lo st [] (t # ts) = False"
| "laid_list lo st (v # vs) [] = False"

lemma laid_local:
  "laid lo st v t \<Longrightarrow> length st \<le> length st' \<Longrightarrow>
     (\<forall>b. lo \<le> b \<and> b < lo + arrays t \<longrightarrow> st' ! b = st ! b) \<Longrightarrow> laid lo st' v t"
  "laid_list lo st vs ts \<Longrightarrow> length st \<le> length st' \<Longrightarrow>
     (\<forall>b. lo \<le> b \<and> b < lo + sum_list (map arrays ts) \<longrightarrow> st' ! b = st ! b) \<Longrightarrow>
     laid_list lo st' vs ts"
proof (induction lo st v t and lo st vs ts rule: laid_laid_list.induct)
  case (7 lo st v ts)
  then show ?case by simp
next
  case (9 lo st v vs t ts)
  then show ?case by simp
qed simp_all

lemma build_laid:
  "build st t = (st', v) \<Longrightarrow> length st' = length st + arrays t \<and> laid (length st) st' v t"
  "build_list st ts = (st', vs) \<Longrightarrow>
     length st' = length st + sum_list (map arrays ts) \<and> laid_list (length st) st' vs ts"
proof (induction st t and st ts arbitrary: st' v and st' vs rule: build_build_list.induct)
  case (7 st ts)
  obtain st1 vs where b: "build_list st ts = (st1, vs)" by (cases "build_list st ts")
  from "7.IH" [OF b] have l: "length st1 = length st + sum_list (map arrays ts)"
    and ll: "laid_list (length st) st1 vs ts" by simp_all
  from "7.prems" b have st': "st' = st1 @ [vs]" and v: "v = HRef (length st1)" by simp_all
  have "laid_list (length st) st' vs ts"
    using ll by (rule laid_local(2)) (simp_all add: st' l nth_append)
  with l st' v show ?case by (simp add: nth_append)
next
  case (9 st t ts)
  obtain st1 v1 where b1: "build st t = (st1, v1)" by (cases "build st t")
  obtain st2 vs2 where b2: "build_list st1 ts = (st2, vs2)" by (cases "build_list st1 ts")
  from "9.IH"(1) [OF b1] have l1: "length st1 = length st + arrays t"
    and la1: "laid (length st) st1 v1 t" by simp_all
  from "9.IH"(2) [OF b1 [symmetric] b2] have l2: "length st2 = length st1 + sum_list (map arrays ts)"
    and la2: "laid_list (length st1) st2 vs2 ts" by simp_all
  from build_frame(2) [OF b2] have e: "extends st1 st2" by simp
  from "9.prems" b1 b2 have st': "st' = st2" and vs: "vs = v1 # vs2" by simp_all
  have "laid (length st) st2 v1 t"
    using la1 by (rule laid_local(1)) (use e l1 in \<open>simp_all add: extends_def\<close>)
  with la2 l1 l2 st' vs show ?case by simp
qed simp_all

text \<open>
  \<open>shaped t\<close>: the tree is an array of values none of which is an array, or an array of
  such trees that \<open>isFlat\<close> does not take for a flat one.  The arrays that Leaflet keeps in
  a \<open>Polyline\<close> or \<open>Polygon\<close> have this shape.
\<close>

lemma laid_read:
  "laid lo st v t \<Longrightarrow> depth t \<le> n \<Longrightarrow> read_tree n st v = Some t"
  "laid_list lo st vs ts \<Longrightarrow> (\<forall>t \<in> set ts. depth t \<le> n) \<Longrightarrow>
     map (read_tree n st) vs = map Some ts"
proof (induction lo st v t and lo st vs ts arbitrary: n and n rule: laid_laid_list.induct)
  case (7 lo st v ts)
  from "7.prems"(2) obtain k where n: "n = Suc k" by (cases n) auto
  with "7.prems"(2) have "\<forall>t \<in> set ts. depth t \<le> k" by auto
  with "7.IH" "7.prems"(1) have "map (read_tree k st) (st ! (lo + sum_list (map arrays ts))) = map Some ts"
    by simp
  with "7.prems"(1) n show ?case by (simp add: those_eq_Some)
qed auto

fun shaped :: "jsval \<Rightarrow> bool" where
  "shaped (Arr xs) = ((\<forall>x \<in> set xs. \<not> isArray x) \<or> (\<not> flat xs \<and> (\<forall>x \<in> set xs. shaped x)))"
| "shaped _ = False"

lemma laid_leaf: "\<not> isArray t \<Longrightarrow> laid lo st v t \<Longrightarrow> laid lo' st' v t \<and> (\<forall>a. v \<noteq> HRef a)"
  by (cases t) auto

lemma laid_typeof: "laid lo st v t \<Longrightarrow> typeof_store v = typeof t"
  by (cases t) auto

lemma laid_index0:
  "laid_list lo st vs ts \<Longrightarrow> laid lo st (index0_store vs) (index0 ts)"
  by (cases vs; cases ts) (simp_all add: index0_store_def index0_def)

lemma isFlat_store_laid:
  assumes "laid_list lo st vs ts"
  shows "isFlat_store h st vs = isFlat h ts"
proof (cases "index0 ts")
  case (Arr ys)
  with laid_index0 [OF assms] have v: "index0_store vs = HRef (lo + sum_list (map arrays ys))"
    and l: "laid_list lo st (st ! (lo + sum_list (map arrays ys))) ys" by simp_all
  from laid_typeof [OF laid_index0 [OF l]] v Arr show ?thesis
    by (simp add: isFlat_store_def isFlat_def)
qed (use laid_index0 [OF assms] in \<open>auto simp: isFlat_store_def isFlat_def\<close>)

lemma arrays_leaf: "\<not> isArray t \<Longrightarrow> arrays t = 0"
  by (cases t) simp_all

lemma arrays_points: "\<forall>x \<in> set ts. \<not> isArray x \<Longrightarrow> sum_list (map arrays ts) = 0"
  by (induction ts) (simp_all add: arrays_leaf)

lemma laid_list_points:
  "laid_list lo st vs ts \<Longrightarrow> \<forall>x \<in> set ts. \<not> isArray x \<Longrightarrow> laid_list lo' st' vs ts"
proof (induction vs ts arbitrary: lo lo' rule: list_induct2')
  case (4 v vs t ts)
  then show ?case using laid_leaf [of t lo st v lo' st'] by fastforce
qed simp_all

lemma laid_list_snoc:
  "laid_list lo st vs ts \<Longrightarrow> laid (lo + sum_list (map arrays ts)) st v t \<Longrightarrow>
   laid_list lo st (vs @ [v]) (ts @ [t])"
  by (induction vs ts arbitrary: lo rule: list_induct2') (simp_all add: add.assoc)

definition closes ::
  "host \<Rightarrow> nat \<Rightarrow> nat \<Rightarrow> store \<Rightarrow> hval \<Rightarrow> jsval \<Rightarrow> store \<Rightarrow> jsval \<Rightarrow> bool" where
  "closes h fuel lo st v t st' t' =
     (addLastSegment_store h fuel st v = Some (st', None) \<and> length st' = length st
      \<and> (\<forall>b. \<not> (lo \<le> b \<and> b < lo + arrays t) \<longrightarrow> st' ! b = st ! b)
      \<and> laid lo st' v t' \<and> arrays t' = arrays t)"

abbreviation addLastSegment_element :: "host \<Rightarrow> jsval \<Rightarrow> error + jsval" where
  "addLastSegment_element h v \<equiv>
     (case v of Arr sub \<Rightarrow> map_sum id Arr (addLastSegment h sub) | _ \<Rightarrow> Inl TypeError)"

lemma each_laid:
  assumes elem: "\<And>t lo st v. t \<in> set ts \<Longrightarrow> laid lo st v t \<Longrightarrow>
            \<exists>st' t'. addLastSegment_element h t = Inr t' \<and> closes h fuel lo st v t st' t'"
    and "laid_list lo st vs ts"
  shows "\<exists>st' ts'. sequence_results (map (addLastSegment_element h) ts) = Inr ts'
           \<and> addLastSegment_each h fuel st vs = Some (st', None) \<and> length st' = length st
           \<and> (\<forall>b. \<not> (lo \<le> b \<and> b < lo + sum_list (map arrays ts)) \<longrightarrow> st' ! b = st ! b)
           \<and> laid_list lo st' vs ts' \<and> map arrays ts' = map arrays ts"
  using assms
proof (induction ts arbitrary: lo st vs)
  case Nil
  then show ?case by (cases vs) simp_all
next
  case (Cons t ts)
  from Cons.prems(2) obtain v vs' where vs: "vs = v # vs'" and lv: "laid lo st v t"
    and lr: "laid_list (lo + arrays t) st vs' ts"
    by (cases vs) simp_all
  from Cons.prems(1) [OF _ lv] obtain st1 t' where t': "addLastSegment_element h t = Inr t'"
    and c: "closes h fuel lo st v t st1 t'" by auto
  from c have s1: "addLastSegment_store h fuel st v = Some (st1, None)" and l1: "length st1 = length st"
    and f1: "\<forall>b. \<not> (lo \<le> b \<and> b < lo + arrays t) \<longrightarrow> st1 ! b = st ! b"
    and la1: "laid lo st1 v t'" and a1: "arrays t' = arrays t"
    by (simp_all add: closes_def)
  have lr1: "laid_list (lo + arrays t) st1 vs' ts"
    using lr by (rule laid_local(2)) (use l1 f1 in simp_all)
  have "\<exists>st' ts'. sequence_results (map (addLastSegment_element h) ts) = Inr ts'
           \<and> addLastSegment_each h fuel st1 vs' = Some (st', None) \<and> length st' = length st1
           \<and> (\<forall>b. \<not> (lo + arrays t \<le> b \<and> b < lo + arrays t + sum_list (map arrays ts)) \<longrightarrow>
                 st' ! b = st1 ! b)
           \<and> laid_list (lo + arrays t) st' vs' ts' \<and> map arrays ts' = map arrays ts"
    by (rule Cons.IH [OF _ lr1]) (use Cons.prems(1) in simp)
  then obtain st2 ts' where sq: "sequence_results (map (addLastSegment_element h) ts) = Inr ts'"
    and s2: "addLastSegment_each h fuel st1 vs' = Some (st2, None)" and l2: "length st2 = length st1"
    and f2: "\<forall>b. \<not> (lo + arrays t \<le> b \<and> b < lo + arrays t + sum_list (map arrays ts)) \<longrightarrow>
                 st2 ! b = st1 ! b"
    and la2: "laid_list (lo + arrays t) st2 vs' ts'" and a2: "map arrays ts' = map arrays ts"
    by blast
  have "laid lo st2 v t'"
    using la1 by (rule laid_local(1)) (use l2 f2 a1 in simp_all)
  with la2 a1 have 1: "laid_list lo st2 vs (t' # ts')" by (simp add: vs)
  have 2: "\<forall>b. \<not> (lo \<le> b \<and> b < lo + sum_list (map arrays (t # ts))) \<longrightarrow> st2 ! b = st ! b"
  proof (intro allI impI)
    fix b assume b: "\<not> (lo \<le> b \<and> b < lo + sum_list (map arrays (t # ts)))"
    then have "st2 ! b = st1 ! b" using f2 by auto
    moreover from b have "st1 ! b = st ! b" using f1 by auto
    ultimately show "st2 ! b = st ! b" by simp
  qed
  from t' sq have 3: "sequence_results (map (addLastSegment_element h) (t # ts)) = Inr (t' # ts')"
    by simp
  from s1 s2 have 4: "addLastSegment_each h fuel st vs = Some (st2, None)" by (simp add: vs)
  from 1 2 3 4 l1 l2 a1 a2 show ?case by simp
qed

lemma index0_cases: "index0 xs = Undefined \<or> index0 xs \<in> set xs"
  by (cases xs) (simp_all add: index0_def)

lemma points_flat: "\<forall>x \<in> set xs. \<not> isArray x \<Longrightarrow> flat xs \<and> \<not> isArray (index0 xs)"
  using index0_cases [of xs] by (auto simp: flat_def)

lemma addLastSegment_store_laid:
  "hasIsArray h \<Longrightarrow> shaped t \<Longrightarrow> laid lo st v t \<Longrightarrow> depth t \<le> fuel \<Longrightarrow>
   \<exists>st' t'. addLastSegment_element h t = Inr t' \<and> closes h fuel lo st v t st' t'"
proof (induction t arbitrary: lo st v fuel)
  case (Arr xs)
  let ?a = "lo + sum_list (map arrays xs)"
  note host = Arr.prems(1)
  from Arr.prems(3) have v: "v = HRef ?a" and a: "?a < length st"
    and ll: "laid_list lo st (st ! ?a) xs" by simp_all
  from Arr.prems(4) obtain k where fuel: "fuel = Suc k" by (cases fuel) auto
  show ?case
  proof (cases "flat xs")
    case True
    with host have fl: "isFlat h xs = Inr True" by (simp add: isFlat_flat)
    from True Arr.prems(2) have pts: "\<forall>x \<in> set xs. \<not> isArray x" by auto
    then have z: "sum_list (map arrays xs) = 0" by (rule arrays_points)
    from v a ll have v': "v = HRef lo" and a': "lo < length st"
      and ll': "laid_list lo st (st ! lo) xs" unfolding z by simp_all
    let ?st' = "st[lo := st ! lo @ [index0_store (st ! lo)]]"
    from points_flat [OF pts] have i0: "\<not> isArray (index0 xs)" by simp
    have z': "sum_list (map arrays (xs @ [index0 xs])) = 0"
      unfolding map_append sum_list_append z using arrays_leaf [OF i0] by simp
    have "laid_list lo ?st' (st ! lo) xs" using ll' pts by (rule laid_list_points)
    moreover have "laid (lo + sum_list (map arrays xs)) ?st' (index0_store (st ! lo)) (index0 xs)"
      using laid_leaf [OF i0 laid_index0 [OF ll']] by simp
    ultimately have sn: "laid_list lo ?st' (st ! lo @ [index0_store (st ! lo)]) (xs @ [index0 xs])"
      by (rule laid_list_snoc)
    have st'a: "?st' ! lo = st ! lo @ [index0_store (st ! lo)]" using a' by simp
    have la: "laid lo ?st' v (Arr (xs @ [index0 xs]))"
      unfolding laid.simps z' using v' a' sn st'a by simp
    have run: "addLastSegment_store h fuel st v = Some (?st', None)"
      using fl isFlat_store_laid [OF ll', of h] by (simp add: fuel v')
    have ar: "arrays (Arr (xs @ [index0 xs])) = arrays (Arr xs)"
      unfolding arrays.simps z z' by simp
    have fr: "\<forall>b. \<not> (lo \<le> b \<and> b < lo + arrays (Arr xs)) \<longrightarrow> ?st' ! b = st ! b"
    proof (intro allI impI)
      fix b assume "\<not> (lo \<le> b \<and> b < lo + arrays (Arr xs))"
      then have "b \<noteq> lo" unfolding arrays.simps z by auto
      then show "?st' ! b = st ! b" by simp
    qed
    have "closes h fuel lo st v (Arr xs) ?st' (Arr (xs @ [index0 xs]))"
      unfolding closes_def using run la ar fr by simp
    then show ?thesis using addLastSegment_flat [OF fl] by auto
  next
    case False
    with host have fl: "isFlat h xs = Inr False" by (simp add: isFlat_flat)
    from False Arr.prems(2) points_flat [of xs] have sh: "\<forall>x \<in> set xs. shaped x" by auto
    have elem: "\<exists>st' t'. addLastSegment_element h t = Inr t' \<and> closes h k lo' st'' v' t st' t'"
      if "t \<in> set xs" "laid lo' st'' v' t" for t lo' st'' v'
    proof -
      from Arr.prems(4) fuel that(1) have "depth t \<le> k" by auto
      with Arr.IH [OF that(1) host _ that(2)] sh that(1) show ?thesis by blast
    qed
    from each_laid [where ts = xs and fuel = k and h = h, OF elem ll]
    obtain st' ts' where sq: "sequence_results (map (addLastSegment_element h) xs) = Inr ts'"
      and ea: "addLastSegment_each h k st (st ! ?a) = Some (st', None)" and l: "length st' = length st"
      and f: "\<forall>b. \<not> (lo \<le> b \<and> b < ?a) \<longrightarrow> st' ! b = st ! b"
      and la: "laid_list lo st' (st ! ?a) ts'" and ar: "map arrays ts' = map arrays xs"
      by blast
    from f have same: "st' ! ?a = st ! ?a" by simp
    have "laid lo st' v (Arr ts')" using la same a l v ar by simp
    moreover have "addLastSegment_store h fuel st v = Some (st', None)"
      using fl isFlat_store_laid [OF ll, of h] ea by (simp add: fuel v)
    moreover have "\<forall>b. \<not> (lo \<le> b \<and> b < lo + arrays (Arr xs)) \<longrightarrow> st' ! b = st ! b"
    proof (intro allI impI)
      fix b assume "\<not> (lo \<le> b \<and> b < lo + arrays (Arr xs))"
      then have "\<not> (lo \<le> b \<and> b < ?a)" by auto
      with f show "st' ! b = st ! b" by blast
    qed
    ultimately have "closes h fuel lo st v (Arr xs) st' (Arr ts')"
      using l ar by (simp add: closes_def)
    then show ?thesis using addLastSegment_nested [OF fl] sq by auto
  qed
qed simp_all

lemma isArray_json_copy: "isArray (json_copy x) = isArray x"
  by (cases x) (simp_all split: option.splits)

lemma typeof_json_copy_object:
  "typeof x = ''object'' \<or> typeof x = ''undefined'' \<Longrightarrow> typeof (json_copy x) = ''object''"
  by (cases x) (simp_all split: option.splits)

lemma index0_map_json_copy:
  "xs \<noteq> [] \<Longrightarrow> index0 (map json_copy xs) = json_copy (index0 xs)"
  by (cases xs) (simp_all add: index0_def)

lemma not_flat_json_copy:
  assumes "\<not> flat xs"
  shows "\<not> flat (map json_copy xs)"
proof -
  from assms obtain ys where ys: "index0 xs = Arr ys"
    and ty: "typeof (index0 ys) = ''object'' \<or> typeof (index0 ys) = ''undefined''"
    by (cases "index0 xs") (auto simp: flat_def)
  from ys have ne: "xs \<noteq> []" by (auto simp: index0_def)
  have "typeof (index0 (map json_copy ys)) = ''object'' \<or> typeof (index0 (map json_copy ys)) = ''undefined''"
  proof (cases ys)
    case Nil
    then show ?thesis by (simp add: index0_def)
  next
    case (Cons y ys')
    with ty show ?thesis using typeof_json_copy_object [of y] by (simp add: index0_def)
  qed
  with ys ne show ?thesis by (auto simp: flat_def index0_map_json_copy)
qed

lemma shaped_json_copy: "shaped t \<Longrightarrow> shaped (json_copy t)"
proof (induction t)
  case (Arr xs)
  from Arr.prems consider "\<forall>x \<in> set xs. \<not> isArray x" | "\<not> flat xs" "\<forall>x \<in> set xs. shaped x"
    by auto
  then show ?case
  proof cases
    case 1
    then show ?thesis by (simp add: isArray_json_copy)
  next
    case 2
    with Arr.IH not_flat_json_copy show ?thesis by simp
  qed
qed simp_all

text \<open>
  The closing of a polygon in the words of the specification: at every nesting level, every
  list of points gets its first point appended, so that its last segment leads back to the
  first vertex.  (A list without points gets \<open>undefined\<close>, as in the source.)
\<close>

fun closeRings :: "jsval \<Rightarrow> jsval" where
  "closeRings (Arr xs) =
     (if \<forall>x \<in> set xs. \<not> isArray x then Arr (xs @ [index0 xs]) else Arr (map closeRings xs))"
| "closeRings v = v"

lemma sequence_results_map_Inr:
  "(\<And>x. x \<in> set xs \<Longrightarrow> f x = Inr (g x)) \<Longrightarrow> sequence_results (map f xs) = Inr (map g xs)"
  by (induction xs) simp_all

lemma addLastSegment_closeRings:
  "hasIsArray h \<Longrightarrow> shaped t \<Longrightarrow> addLastSegment_element h t = Inr (closeRings t)"
proof (induction t)
  case (Arr xs)
  show ?case
  proof (cases "\<forall>x \<in> set xs. \<not> isArray x")
    case True
    with points_flat [OF True] Arr.prems(1) show ?thesis
      by (simp add: addLastSegment_flat isFlat_flat)
  next
    case False
    with Arr.prems have nf: "isFlat h xs = Inr False" and sh: "\<forall>x \<in> set xs. shaped x"
      by (auto simp: isFlat_flat)
    have "sequence_results (map (addLastSegment_element h) xs) = Inr (map closeRings xs)"
      by (rule sequence_results_map_Inr) (use Arr.IH Arr.prems(1) sh in blast)
    with False nf show ?thesis by (simp add: addLastSegment_nested)
  qed
qed simp_all

lemma copy_store_frame:
  assumes "copy_store h fuel st a polygon = Some (st', r)"
  shows "extends st st'"
proof -
  let ?st1 = "st @ [st ! a]"
  from assms obtain t where t: "read_tree fuel ?st1 (HRef (length st)) = Some t"
    by (auto simp: copy_store_def alloc_def split: option.splits)
  obtain st2 v2 where b: "build ?st1 (json_copy t) = (st2, v2)"
    by (cases "build ?st1 (json_copy t)")
  from build_frame(1) [OF b] have e2: "extends ?st1 st2" and c2: "closed_from (length ?st1) st2"
    and r2: "refs_within (length ?st1) st2 [v2]" by simp_all
  have e1: "extends st ?st1" by (rule extends_append)
  show ?thesis
  proof (cases polygon)
    case False
    with assms t b have "st' = st2" by (simp add: copy_store_def alloc_def)
    with e1 e2 show ?thesis using extends_trans by blast
  next
    case True
    with assms t b obtain r' where "addLastSegment_store h fuel st2 v2 = Some (st', r')"
      by (auto simp: copy_store_def alloc_def split: option.splits)
    from addLastSegment_frame(1) [OF this c2 r2] have "extends ?st1 st'"
      using e2 by (auto simp: extends_def)
    with e1 show ?thesis using extends_trans by blast
  qed
qed

lemma read_appended:
  assumes "read_tree fuel st (HRef a) = Some t"
  shows "read_tree fuel (st @ [st ! a]) (HRef (length st)) = Some t"
proof -
  from assms obtain k where fuel: "fuel = Suc k" by (cases fuel) auto
  from assms fuel have a: "a < length st" by (simp split: if_splits)
  with assms fuel obtain ts where ts: "map (read_tree k st) (st ! a) = map Some ts"
    and t: "t = Arr ts" by (auto simp: those_eq_Some)
  have "map (read_tree k (st @ [st ! a])) (st ! a) = map (read_tree k st) (st ! a)"
  proof (rule map_cong [OF refl])
    fix x assume "x \<in> set (st ! a)"
    with ts have "read_tree k st x \<in> set (map Some ts)" by (metis image_eqI list.set_map)
    then obtain tx where "read_tree k st x = Some tx" by auto
    with read_tree_extends [OF extends_append] show "read_tree k (st @ [st ! a]) x = read_tree k st x"
      by simp
  qed
  with ts t fuel show ?thesis by (simp add: those_eq_Some)
qed

lemma copy_store_closes:
  assumes host: "hasIsArray h"
    and r: "read_tree fuel st (HRef a) = Some (Arr lls)"
    and sh: "shaped (Arr lls)"
  shows "\<exists>st' v latlngs. copy_store h fuel st a True = Some (st', Inr v)
           \<and> copyLatLngs h True lls = Inr latlngs
           \<and> read_tree fuel st' v = Some (Arr latlngs)
           \<and> Arr latlngs = closeRings (Arr (map json_copy lls))"
proof -
  let ?st1 = "st @ [st ! a]"
  let ?t = "Arr (map json_copy lls)"
  from read_appended [OF r] have r1: "read_tree fuel ?st1 (HRef (length st)) = Some (Arr lls)" .
  obtain st2 v2 where b: "build ?st1 ?t = (st2, v2)" by (cases "build ?st1 ?t")
  from build_laid(1) [OF b] have la: "laid (length ?st1) st2 v2 ?t" by simp
  from read_tree_depth [OF r] have d: "depth ?t \<le> fuel" using depth_json_copy [of "Arr lls"] by simp
  from shaped_json_copy [OF sh] have sh': "shaped ?t" by simp
  from addLastSegment_store_laid [OF host sh' la d] obtain st3 t'
    where t': "addLastSegment_element h ?t = Inr t'"
      and c: "closes h fuel (length ?st1) st2 v2 ?t st3 t'"
    by blast
  from addLastSegment_closeRings [OF host sh'] t' have t'c: "t' = closeRings ?t" by simp
  from t' obtain ys where ys: "addLastSegment h (map json_copy lls) = Inr ys" and t'y: "t' = Arr ys"
    by (cases "addLastSegment h (map json_copy lls)") auto
  from depth_addLastSegment [OF ys] d have d': "depth t' \<le> fuel" using t'y by simp
  from c have run: "addLastSegment_store h fuel st2 v2 = Some (st3, None)"
    and la3: "laid (length ?st1) st3 v2 t'"
    by (simp_all add: closes_def)
  from laid_read(1) [OF la3 d'] t'y have 1: "read_tree fuel st3 v2 = Some (Arr ys)" by simp
  from r1 b run have 2: "copy_store h fuel st a True = Some (st3, Inr v2)"
    by (simp add: copy_store_def alloc_def)
  have 3: "copyLatLngs h True lls = Inr ys" using ys by (simp add: copyLatLngs_def)
  have 4: "Arr ys = closeRings ?t" using t'c t'y by (simp only:)
  from 1 2 3 4 show ?thesis by blast
qed

lemma build_array: "\<exists>st' c. build st (Arr ts) = (st', HRef c)"
  by (simp split: prod.splits)

lemma copy_store_raises:
  assumes host: "\<not> hasIsArray h"
    and r: "read_tree fuel st (HRef a) = Some (Arr lls)"
  shows "\<exists>st'. copy_store h fuel st a True = Some (st', Inl TypeError)"
proof -
  let ?st1 = "st @ [st ! a]"
  from read_appended [OF r] have r1: "read_tree fuel ?st1 (HRef (length st)) = Some (Arr lls)" .
  from r obtain k where fuel: "fuel = Suc k" by (cases fuel) auto
  from build_array [of ?st1 "map json_copy lls"] obtain st2 c
    where b: "build ?st1 (Arr (map json_copy lls)) = (st2, HRef c)" by blast
  have "addLastSegment_store h fuel st2 (HRef c) = Some (st2, Some TypeError)"
    using host by (simp add: fuel isFlat_store_def)
  with r1 b have "copy_store h fuel st a True = Some (st2, Inl TypeError)"
    by (simp add: copy_store_def alloc_def)
  then show ?thesis by blast
qed

lemma copyLatLngs_without_isArray:
  "\<not> hasIsArray h \<Longrightarrow> copyLatLngs h True lls = Inl TypeError"
  by (simp add: copyLatLngs_def isFlat_def addLastSegment_raises)

text \<open>
  C7 fails on the code.  On a host without \<open>Util.isArray\<close>, which Leaflet 2 is, \<open>isFlat\<close>
  raises a \<open>TypeError\<close> on its first call, from \<open>addLastSegment\<close>: no closing segment is
  appended to any polygon, and the search on a \<open>Polygon\<close> ends in that error.  The frame
  part of the claim holds: whatever the host, the store, the address, the fuel and the kind
  of layer, and whether the copy returns or raises, every array that was in the store is
  still there unchanged afterwards, so every tree that could be read before reads the same.
  On a host with \<open>Util.isArray\<close>, for a polygon whose array reads as the tree \<open>lls\<close> and has
  the shape Leaflet gives it, the copy returns, the value of \<open>latlngs\<close> reads as the \<open>JSON\<close>
  copy of \<open>lls\<close> with every ring closed, which is what \<open>copyLatLngs\<close> computes in the pure
  model, and the array of the layer still reads as \<open>lls\<close>.  The search on a \<open>Polygon\<close> is
  the common body run with the closing switched on.
\<close>

theorem polygon_closing_raises:
  "(\<not> hasIsArray h \<longrightarrow>
      copyLatLngs h True lls = Inl TypeError
      \<and> closest this h (Layer (Polygon k lls)) latlng vertices = Inl TypeError
      \<and> (read_tree fuel st (HRef a) = Some (Arr lls) \<longrightarrow>
           (\<exists>st''. copy_store h fuel st a True = Some (st'', Inl TypeError))))
   \<and> (copy_store h fuel st a polygon = Some (st', r) \<longrightarrow>
        extends st st' \<and> (\<forall>n u t. read_tree n st u = Some t \<longrightarrow> read_tree n st' u = Some t))
   \<and> (hasIsArray h \<and> read_tree fuel st (HRef a) = Some (Arr lls) \<and> shaped (Arr lls) \<longrightarrow>
        (\<exists>st'' v' latlngs.
            copy_store h fuel st a True = Some (st'', Inr v')
          \<and> copyLatLngs h True lls = Inr latlngs
          \<and> read_tree fuel st'' v' = Some (Arr latlngs)
          \<and> Arr latlngs = closeRings (Arr (map json_copy lls))
          \<and> read_tree fuel st'' (HRef a) = Some (Arr lls)))
   \<and> closest this h (Layer (Polygon k lls)) latlng vertices =
       closestLatLngs this h True lls latlng vertices"
proof (intro conjI impI)
  assume "\<not> hasIsArray h"
  then show "copyLatLngs h True lls = Inl TypeError"
    by (rule copyLatLngs_without_isArray)
next
  assume "\<not> hasIsArray h"
  then show "closest this h (Layer (Polygon k lls)) latlng vertices = Inl TypeError"
    by (simp add: closest.simps closestLatLngs_without_isArray)
next
  assume "\<not> hasIsArray h" and "read_tree fuel st (HRef a) = Some (Arr lls)"
  then show "\<exists>st''. copy_store h fuel st a True = Some (st'', Inl TypeError)"
    by (rule copy_store_raises)
next
  assume c: "copy_store h fuel st a polygon = Some (st', r)"
  from copy_store_frame [OF c] show "extends st st'" .
  then show "\<forall>n u t. read_tree n st u = Some t \<longrightarrow> read_tree n st' u = Some t"
    using read_tree_extends by blast
next
  assume "hasIsArray h \<and> read_tree fuel st (HRef a) = Some (Arr lls) \<and> shaped (Arr lls)"
  then have host: "hasIsArray h" and r: "read_tree fuel st (HRef a) = Some (Arr lls)"
    and sh: "shaped (Arr lls)" by simp_all
  from copy_store_closes [OF host r sh] obtain st'' v' latlngs
    where c: "copy_store h fuel st a True = Some (st'', Inr v')"
      and rest: "copyLatLngs h True lls = Inr latlngs" "read_tree fuel st'' v' = Some (Arr latlngs)"
        "Arr latlngs = closeRings (Arr (map json_copy lls))"
    by blast
  from read_tree_extends [OF copy_store_frame [OF c] r]
  have "read_tree fuel st'' (HRef a) = Some (Arr lls)" .
  with c rest show "\<exists>st'' v' latlngs.
            copy_store h fuel st a True = Some (st'', Inr v')
          \<and> copyLatLngs h True lls = Inr latlngs
          \<and> read_tree fuel st'' v' = Some (Arr latlngs)
          \<and> Arr latlngs = closeRings (Arr (map json_copy lls))
          \<and> read_tree fuel st'' (HRef a) = Some (Arr lls)"
    by blast
next
  show "closest this h (Layer (Polygon k lls)) latlng vertices =
       closestLatLngs this h True lls latlng vertices"
    by (simp add: closest.simps)
qed

text \<open>
  A square polygon as Leaflet stores it, one ring of four points, seen from its centre.  On
  Leaflet 2 the call raises a \<open>TypeError\<close>; the store then holds the copy with its ring
  still open.  On a host with \<open>Util.isArray\<close> the copy holds the ring closed by a fifth
  point at a new address, and the search returns the point on the closing segment.  Either
  way the layer's own arrays are as before.
\<close>

definition ringPoints :: "latlng list" where
  "ringPoints = [pos 0 0, pos 2 0, pos 2 2, pos 0 2]"

definition polygonStore :: store where
  "polygonStore = [map HLatLng ringPoints, [HRef 0]]"

definition openCopyStore :: store where
  "openCopyStore =
     polygonStore @
     [[HRef 0],
      map (\<lambda>p. HObj (Some (lat p)) (Some (lng p))) ringPoints,
      [HRef 3]]"

definition copiedStore :: store where
  "copiedStore =
     polygonStore @
     [[HRef 0],
      map (\<lambda>p. HObj (Some (lat p)) (Some (lng p))) (ringPoints @ [pos 0 0]),
      [HRef 3]]"

lemma polygonStore_read:
  "read_tree (Suc (Suc 0)) polygonStore (HRef 1) = Some (Arr [Arr (map LatLngObj ringPoints)])"
  by (simp add: polygonStore_def ringPoints_def)

lemma polygonStore_copy:
  "copy_store planeMap (Suc (Suc 0)) polygonStore 1 True = Some (copiedStore, Inr (HRef 4))"
  by (simp add: copy_store_def alloc_def polygonStore_def copiedStore_def ringPoints_def pos_def
        isFlat_store_def index0_store_def planeMap_def)

lemma polygonStore_raise:
  "copy_store leaflet2Map (Suc (Suc 0)) polygonStore 1 True = Some (openCopyStore, Inl TypeError)"
  by (simp add: copy_store_def alloc_def polygonStore_def openCopyStore_def ringPoints_def pos_def
        isFlat_store_def index0_store_def leaflet2Map_def)

lemma copiedStore_read:
  "read_tree (Suc (Suc 0)) copiedStore (HRef 4) =
     Some (Arr [Arr (map (\<lambda>p. Obj (Some (lat p)) (Some (lng p))) (ringPoints @ [pos 0 0]))])"
  by (simp add: polygonStore_def copiedStore_def ringPoints_def)

lemma polygon_shaped: "shaped (Arr [Arr (map LatLngObj ringPoints)])"
  by (simp add: ringPoints_def flat_def index0_def)

lemma polygon_copyLatLngs:
  "copyLatLngs planeMap True [Arr (map LatLngObj ringPoints)] =
     Inr [Arr (map (\<lambda>p. Obj (Some (lat p)) (Some (lng p))) (ringPoints @ [pos 0 0]))]"
  by (simp add: copyLatLngs_def ringPoints_def pos_def addLastSegment_nested addLastSegment_flat
        isFlat_def index0_def planeMap_def)

lemma polygon_search:
  "closest None planeMap (Layer (Polygon 14 [Arr (map LatLngObj ringPoints)])) (pos 1 1) False =
     Inr (Some \<lparr>cr_latlng = pos 0 1, cr_distance = Fin 1\<rparr>)"
  by (simp add: ringPoints_def example_defs addLastSegment_nested addLastSegment_flat)

theorem polygon_closing_raises_witness:
  "\<not> hasIsArray leaflet2Map
   \<and> read_tree (Suc (Suc 0)) polygonStore (HRef 1) = Some (Arr [Arr (map LatLngObj ringPoints)])
   \<and> copy_store leaflet2Map (Suc (Suc 0)) polygonStore 1 True = Some (openCopyStore, Inl TypeError)
   \<and> copyLatLngs leaflet2Map True [Arr (map LatLngObj ringPoints)] = Inl TypeError
   \<and> closest None leaflet2Map (Layer (Polygon 14 [Arr (map LatLngObj ringPoints)])) (pos 1 1) False =
       Inl TypeError
   \<and> extends polygonStore openCopyStore
   \<and> read_tree (Suc (Suc 0)) openCopyStore (HRef 1) = Some (Arr [Arr (map LatLngObj ringPoints)])
   \<and> hasIsArray planeMap
   \<and> shaped (Arr [Arr (map LatLngObj ringPoints)])
   \<and> copy_store planeMap (Suc (Suc 0)) polygonStore 1 True = Some (copiedStore, Inr (HRef 4))
   \<and> extends polygonStore copiedStore
   \<and> read_tree (Suc (Suc 0)) copiedStore (HRef 1) = Some (Arr [Arr (map LatLngObj ringPoints)])
   \<and> copyLatLngs planeMap True [Arr (map LatLngObj ringPoints)] =
       Inr [Arr (map (\<lambda>p. Obj (Some (lat p)) (Some (lng p))) (ringPoints @ [pos 0 0]))]
   \<and> read_tree (Suc (Suc 0)) copiedStore (HRef 4) =
       Some (Arr [Arr (map (\<lambda>p. Obj (Some (lat p)) (Some (lng p))) (ringPoints @ [pos 0 0]))])
   \<and> closest None planeMap (Layer (Polygon 14 [Arr (map LatLngObj ringPoints)])) (pos 1 1) False =
       Inr (Some \<lparr>cr_latlng = pos 0 1, cr_distance = Fin 1\<rparr>)"
proof -
  note T = polygon_closing_raises
    [where fuel = "Suc (Suc 0)" and st = polygonStore and a = 1 and polygon = True
       and lls = "[Arr (map LatLngObj ringPoints)]"
       and this = None and k = 14 and latlng = "pos 1 1" and vertices = False]
  note T1 = T [where h = planeMap and st' = copiedStore and r = "Inr (HRef 4)"]
  note T2 = T [where h = leaflet2Map and st' = openCopyStore and r = "Inl TypeError"]
  have h1: "hasIsArray planeMap" by (simp add: planeMap_def)
  have h2: "\<not> hasIsArray leaflet2Map" by (simp add: leaflet2Map_def)
  from T2 h2 have c2: "copyLatLngs leaflet2Map True [Arr (map LatLngObj ringPoints)] = Inl TypeError"
    and s2: "closest None leaflet2Map (Layer (Polygon 14 [Arr (map LatLngObj ringPoints)])) (pos 1 1) False =
       Inl TypeError"
    by blast+
  from T2 polygonStore_raise have e2: "extends polygonStore openCopyStore" by blast
  from T2 polygonStore_raise polygonStore_read
  have r2: "read_tree (Suc (Suc 0)) openCopyStore (HRef 1) = Some (Arr [Arr (map LatLngObj ringPoints)])"
    by blast
  from T1 polygonStore_copy have e1: "extends polygonStore copiedStore" by blast
  from T1 polygonStore_copy polygonStore_read
  have r1: "read_tree (Suc (Suc 0)) copiedStore (HRef 1) = Some (Arr [Arr (map LatLngObj ringPoints)])"
    by blast
  from h1 h2 c2 s2 e2 r2 e1 r1 polygonStore_copy polygonStore_raise polygonStore_read polygon_shaped
    polygon_copyLatLngs copiedStore_read polygon_search
  show ?thesis by (simp only: simp_thms)
qed

end
